theory Spec2Isabelle
  imports Main "HOL-Library.Word" "HOL-Library.Multiset"
begin

unbundle bit_operations_syntax

section \<open>Verification of the quick-build engine (callisto, \<open>quick_builder.cpp\<close>)\<close>

text \<open>
  The theory embeds \<open>QuickBuilder\<close> of \<open>src/callisto/builders/quick_builder.cpp\<close>:
  the hijack validator, the per-report and per-entry change checks, module cleanup and
  the driver \<open>build\<close>. Exceptions are values of the type \<open>Error\<close>, the C++ integer
  types are words of their width, and every collaborator whose code is outside the
  translated file (insertables, path helpers, the assembler library, the file system) is
  a field of an environment record.
\<close>

subsection \<open>Data model\<close>

type_synonym path = string
type_synonym timestamp = "64 word"
type_synonym byte = "8 word"

text \<open>
  The exceptions of the engine. \<open>ConfigException\<close> is what \<open>getOrThrow\<close> raises on a
  configuration variable that is not set; \<open>InvalidArgument\<close> and \<open>OutOfRange\<close> are the
  exceptions of \<open>std::stoi\<close> and of \<open>json::at\<close>; \<open>BadOptionalAccess\<close> is the one of
  \<open>std::optional::value\<close>; \<open>OtherException\<close> stands for any other exception a
  collaborator raises.
\<close>

datatype Error =
    MustRebuildException
  | InsertionException
  | ToolNotFoundException
  | ResourceNotFoundException
  | NoDependencyReportFound
  | ConfigException
  | InvalidArgument
  | OutOfRange
  | BadOptionalAccess
  | OtherException

datatype Result = SUCCESS | NO_WORK

text \<open>
  Modelled from the spec: the enumeration \<open>Symbol\<close> is declared outside the translated
  file; its variants are the ones the specification lists. The source names two of them,
  \<open>Symbol::PATCH\<close> and \<open>Symbol::MODULE\<close>.
\<close>

datatype Symbol =
    GRAPHICS | EX_GRAPHICS | SHARED_PALETTES | OVERWORLD | TITLE_SCREEN | CREDITS
  | GLOBAL_EX_ANIMATION | TITLE_MOVES | LEVELS | MAP16 | PIXI | EXTERNAL_TOOL | PATCH | MODULE

record Descriptor =
  symbol :: Symbol
  name :: "string option"

datatype Policy = REBUILD | REINSERT

text \<open>A JSON value, as far as the engine compares configuration values.\<close>

datatype json =
    JNull
  | JBool bool
  | JNumber int
  | JString string
  | JArray "json list"

text \<open>
  The fields \<open>value\<close> and \<open>policy\<close> of \<open>ConfigurationDependency\<close> are \<open>value_c\<close> and
  \<open>policy_c\<close> here, and \<open>policy\<close> of \<open>ResourceDependency\<close> is \<open>policy_r\<close>: record fields
  are global names.
\<close>

record ConfigurationDependency =
  config_keys :: string
  value_c :: json
  policy_c :: Policy

record ResourceDependency =
  dependent_path :: path
  last_write_time :: "timestamp option"
  policy_r :: Policy

type_synonym size_t = "64 word"
type_synonym hijack = "size_t \<times> size_t"

text \<open>An element of \<open>report["dependencies"]\<close>.\<close>

record Entry =
  descriptor :: Descriptor
  configuration_dependencies :: "ConfigurationDependency list"
  resource_dependencies :: "ResourceDependency list"
  hijacks :: "hijack list"

text \<open>
  The build report \<open>report\<close>, a JSON document in the source. \<open>report["rom_size"]\<close> is
  \<open>None\<close> when it is JSON \<open>null\<close>. The list \<open>report["dependencies"]\<close>, which \<open>build\<close>
  mutates, lives in the state below.
\<close>

record Report =
  file_format_version :: int
  report_build_order :: "Descriptor list"
  report_rom_size :: "nat option"
  inserted_levels :: "int list"
  module_outputs :: "string \<Rightarrow> path list"

text \<open>
  The configuration. A variable read with \<open>getOrThrow\<close> or \<open>isSet\<close> is an option: \<open>None\<close>
  when it is not set.
\<close>

record Configuration =
  output_rom :: "path option"
  rom_size :: "nat option"
  build_order :: "Descriptor list"
  levels :: "path option"
  project_root :: "path option"
  temporary_folder :: "path option"
  getByKey :: "string \<Rightarrow> json"

text \<open>The arguments \<open>cleanModule\<close> gives the assembler, of the structure \<open>patchparams\<close>.\<close>

record patchparams =
  patchloc :: path
  romdata :: "byte list"
  buflen :: int
  romlen :: "32 word"
  should_reset :: bool
  override_checksum_gen :: bool
  generate_checksum :: bool

text \<open>
  The messages \<open>build\<close> writes to the log: those of lines 21 to 52, which announce each
  per-report check and tell that it passed, those that report how an entry was
  classified, and the warning of line 165.
\<close>

datatype Message =
    QuickBuildStarted
  | CheckingRomExists
  | RomFound path
  | CheckingRomSize
  | RomSizeUnchanged
  | CheckingReportFormat
  | ReportFormatUnchanged
  | CheckingBuildOrder
  | BuildOrderUnchanged
  | CheckingLevels
  | LevelsUnchanged
  | CheckingConfiguration
  | ConfigurationUnchanged
  | MustBeReinsertedDueToConfig Descriptor string
  | MustBeReinsertedDueToResource Descriptor path
  | AlreadyUpToDate Descriptor
  | QuickbuildNotApplicable

text \<open>
  The calls \<open>QuickBuilder\<close> makes that act on the world outside: on the file system, on
  an insertable, on the assembler library, on the log. A run records them in order.
\<close>

datatype Effect =
    BuilderInit
  | FsCopy path path
  | FsCopyFile path path
  | FsCreateDirectories path
  | FsRemoveAll path
  | WriteText path string
  | WriteBytes path "byte list"
  | AsarInit
  | AsarPatchEx patchparams
  | DescriptorToInsertable Descriptor
  | InsertableInit Descriptor
  | InsertWithDependencies Descriptor
  | Insert Descriptor
  | WriteBuildReport "Entry list"
  | RemoveBuildReport
  | CacheModules
  | WriteMarkerToRom path
  | MoveTempToOutput
  | LinkOutputRomToProjectGraphics bool
  | Log Message

text \<open>
  The environment: every collaborator of \<open>QuickBuilder\<close> whose code is outside the
  translated file, over a world \<open>'w\<close> (the file system and the state of the tools).
  \<open>perform\<close> runs a call: it gives the world after the call and the exception the call
  raised, if any. What a call returns is read from the world after it: \<open>asar_init\<close> and
  \<open>asar_patch_ex\<close> (the success flag, and the contents of the buffer after the call),
  \<open>reportedDependencies\<close> (the set \<open>insertWithDependencies\<close> returned, in the order of
  its iteration), \<open>getConfigurationDependencies\<close> and \<open>getHijacks\<close>. The other fields are
  the constants, the path helpers and the file system queries. \<open>cleanupFilePath\<close>,
  \<open>oldSymbolsSource\<close> and \<open>userModuleTarget\<close> take the module path (or output path)
  and the project root.
\<close>

record 'w Environment =
  BUILD_REPORT_VERSION :: int
  MAX_ROM_SIZE :: int
  perform :: "Effect \<Rightarrow> 'w \<Rightarrow> 'w \<times> Error option"
  fs_exists :: "path \<Rightarrow> 'w \<Rightarrow> bool"
  fs_last_write_time :: "path \<Rightarrow> 'w \<Rightarrow> timestamp"
  fs_directory_iterator :: "path \<Rightarrow> 'w \<Rightarrow> path list"
  extension :: "path \<Rightarrow> string"
  getInternalLevelNumber :: "path \<Rightarrow> 'w \<Rightarrow> int option"
  getTemporaryRomPath :: "path \<Rightarrow> path \<Rightarrow> path"
  cleanupFilePath :: "path \<Rightarrow> path \<Rightarrow> path"
  uniquePatchPath :: "'w \<Rightarrow> path"
  readLines :: "path \<Rightarrow> 'w \<Rightarrow> string list"
  readBytes :: "path \<Rightarrow> 'w \<Rightarrow> byte list"
  asar_init :: "'w \<Rightarrow> bool"
  asar_patch_ex :: "patchparams \<Rightarrow> 'w \<Rightarrow> bool \<times> byte list"
  oldSymbolsSource :: "path \<Rightarrow> path \<Rightarrow> path"
  userModuleTarget :: "path \<Rightarrow> path \<Rightarrow> path"
  parent_path :: "path \<Rightarrow> path"
  reportedDependencies :: "Descriptor \<Rightarrow> 'w \<Rightarrow> ResourceDependency list"
  getConfigurationDependencies :: "Descriptor \<Rightarrow> 'w \<Rightarrow> ConfigurationDependency list"
  getHijacks :: "Descriptor \<Rightarrow> 'w \<Rightarrow> hijack list"

text \<open>
  The state of a run: the world, the calls made so far, the list
  \<open>report["dependencies"]\<close> and the two local variables of \<open>build\<close> that its loop
  carries.
\<close>

record 'w State =
  world :: 'w
  trace :: "Effect list"
  dependencies :: "Entry list"
  any_work_done :: bool
  failed_dependency_report :: "Error option"

type_synonym ('w, 'a) action = "'w State \<Rightarrow> (Error + 'a) \<times> 'w State"

subsection \<open>Sequencing, exceptions and calls\<close>

definition return_ok :: "'a \<Rightarrow> ('w, 'a) action" where
  "return_ok a = (\<lambda>s. (Inr a, s))"

definition throw :: "Error \<Rightarrow> ('w, 'a) action" where
  "throw e = (\<lambda>s. (Inl e, s))"

definition bind :: "('w, 'a) action \<Rightarrow> ('a \<Rightarrow> ('w, 'b) action) \<Rightarrow> ('w, 'b) action" where
  "bind m f = (\<lambda>s. case m s of (Inl e, s') \<Rightarrow> (Inl e, s') | (Inr a, s') \<Rightarrow> f a s')"

definition next_do :: "('w, unit) action \<Rightarrow> ('w, 'b) action \<Rightarrow> ('w, 'b) action" where
  "next_do m m' = bind m (\<lambda>_. m')"

text \<open>A computation that reads the state and either raises or returns.\<close>

definition check :: "('w State \<Rightarrow> Error + 'a) \<Rightarrow> ('w, 'a) action" where
  "check c = (\<lambda>s. (c s, s))"

text \<open>A call that acts on the world: it is recorded, then run.\<close>

definition call :: "'w Environment \<Rightarrow> Effect \<Rightarrow> ('w, unit) action" where
  "call env eff = (\<lambda>s.
     case perform env eff (world s) of
       (w', r) \<Rightarrow>
         (case r of Some e \<Rightarrow> Inl e | None \<Rightarrow> Inr (),
          s\<lparr>world := w', trace := trace s @ [eff]\<rparr>))"

text \<open>Reading the state, changing it, and writing a message to the log.\<close>

definition get :: "('w State \<Rightarrow> 'a) \<Rightarrow> ('w, 'a) action" where
  "get f = (\<lambda>s. (Inr (f s), s))"

definition modify :: "('w State \<Rightarrow> 'w State) \<Rightarrow> ('w, unit) action" where
  "modify g = (\<lambda>s. (Inr (), g s))"

definition logMessage :: "Message \<Rightarrow> ('w, unit) action" where
  "logMessage m = modify (\<lambda>s. s\<lparr>trace := trace s @ [Log m]\<rparr>)"

text \<open>
  \<open>getOrThrow\<close> of a configuration variable: its value, or an exception when the
  variable is not set.
\<close>

definition getOrThrow :: "'a option \<Rightarrow> Error + 'a" where
  "getOrThrow v = (case v of None \<Rightarrow> Inl ConfigException | Some x \<Rightarrow> Inr x)"

subsection \<open>The hijack validator\<close>

text \<open>
  \<open>std::size_t\<close> is the 64-bit unsigned type of the build targets; \<open>address + i\<close>
  wraps around as unsigned arithmetic does. A hijack is an \<open>(address, number)\<close> pair.
\<close>

text \<open>
  The inner loop of the first loop nest (lines 433 to 435):
  \<^verbatim>\<open>for (size_t i{ 0 }; i != number; ++i) new_written_addresses.insert(address + i);\<close>
  with the loop counter as an argument. The \<open>std::unordered_set\<close> is a set.
\<close>

function insertRange :: "size_t \<Rightarrow> size_t \<Rightarrow> size_t \<Rightarrow> size_t set \<Rightarrow> size_t set" where
  "insertRange address number i written =
     (if i \<noteq> number then insertRange address number (i + 1) (insert (address + i) written)
      else written)"
  by pat_completeness auto
termination
proof (relation "measure (\<lambda>(address, number, i, written). unat (number - i))")
  fix address number i :: size_t and written :: "size_t set"
  assume "i \<noteq> number"
  then have nz: "number - i \<noteq> 0" by simp
  have e: "number - (i + 1) = (number - i) - 1" by simp
  have m: "unat ((number - i) - 1) = unat (number - i) - 1"
    using nz by (rule unat_minus_one)
  have p: "unat (number - i) \<noteq> 0" using nz by (simp add: unat_eq_0)
  have "unat (number - (i + 1)) < unat (number - i)"
    unfolding e m using p by arith
  then show "((address, number, i + 1, insert (address + i) written), address, number, i, written)
      \<in> measure (\<lambda>(address, number, i, written). unat (number - i))"
    by simp
qed simp

text \<open>
  The inner loop of the second loop nest (lines 439 to 443), which returns \<open>true\<close> from
  the whole function at the first address that is not in the set.
\<close>

function rangeMissing :: "size_t set \<Rightarrow> size_t \<Rightarrow> size_t \<Rightarrow> size_t \<Rightarrow> bool" where
  "rangeMissing written address number i =
     (if i \<noteq> number then
        (if address + i \<notin> written then True
         else rangeMissing written address number (i + 1))
      else False)"
  by pat_completeness auto
termination
proof (relation "measure (\<lambda>(written, address, number, i). unat (number - i))")
  fix written :: "size_t set" and address number i :: size_t
  assume "i \<noteq> number"
  then have nz: "number - i \<noteq> 0" by simp
  have e: "number - (i + 1) = (number - i) - 1" by simp
  have m: "unat ((number - i) - 1) = unat (number - i) - 1"
    using nz by (rule unat_minus_one)
  have p: "unat (number - i) \<noteq> 0" using nz by (simp add: unat_eq_0)
  have "unat (number - (i + 1)) < unat (number - i)"
    unfolding e m using p by arith
  then show "((written, address, number, i + 1), written, address, number, i)
      \<in> measure (\<lambda>(written, address, number, i). unat (number - i))"
    by simp
qed simp

declare insertRange.simps [simp del] rangeMissing.simps [simp del]

text \<open>The outer loops over \<open>new_hijacks\<close> (line 432) and \<open>old_hijacks\<close> (line 438).\<close>

fun newWrittenAddresses :: "hijack list \<Rightarrow> size_t set \<Rightarrow> size_t set" where
  "newWrittenAddresses [] written = written"
| "newWrittenAddresses ((address, number) # rest) written =
     newWrittenAddresses rest (insertRange address number 0 written)"

fun anyOldMissing :: "size_t set \<Rightarrow> hijack list \<Rightarrow> bool" where
  "anyOldMissing written [] = False"
| "anyOldMissing written ((address, number) # rest) =
     (if rangeMissing written address number 0 then True else anyOldMissing written rest)"

definition hijacksGoneBad :: "hijack list \<Rightarrow> hijack list \<Rightarrow> bool" where
  "hijacksGoneBad old_hijacks new_hijacks =
     anyOldMissing (newWrittenAddresses new_hijacks {}) old_hijacks"

text \<open>
  The specification's side: the byte addresses a range \<open>(address, length)\<close> covers are
  \<open>address, address + 1, ..., address + length - 1\<close> (in \<open>size_t\<close> arithmetic), and the
  address set of a list of ranges is the union over its ranges.
\<close>

definition rangeAddresses :: "hijack \<Rightarrow> size_t set" where
  "rangeAddresses h = (\<lambda>k. fst h + of_nat k) ` {k. k < unat (snd h)}"

definition addressSet :: "hijack list \<Rightarrow> size_t set" where
  "addressSet hs = \<Union> (rangeAddresses ` set hs)"


subsection \<open>The constructor\<close>


subsection \<open>The per-report checks\<close>

text \<open>Lines 26 to 28 of \<open>build\<close>: the ROM of the previous build exists.\<close>

definition checkOutputRomExists :: "'w Environment \<Rightarrow> Configuration \<Rightarrow> 'w \<Rightarrow> Error + unit" where
  "checkOutputRomExists env config w =
     (case getOrThrow (output_rom config) of
        Inl e \<Rightarrow> Inl e
      | Inr rom \<Rightarrow> if \<not> fs_exists env rom w then Inl MustRebuildException else Inr ())"

text \<open>
  \<open>checkRebuildRomSize\<close> (lines 210 to 214). The right operand of \<open>||\<close> is evaluated
  only when the left one is false, and it calls \<open>getOrThrow\<close>.
\<close>

definition checkRebuildRomSize :: "Report \<Rightarrow> Configuration \<Rightarrow> Error + unit" where
  "checkRebuildRomSize report config =
     (if report_rom_size report = None \<and> rom_size config \<noteq> None then Inl MustRebuildException
      else
        (case getOrThrow (rom_size config) of
           Inl e \<Rightarrow> Inl e
         | Inr configured \<Rightarrow>
             if report_rom_size report \<noteq> Some configured then Inl MustRebuildException
             else Inr ()))"

text \<open>\<open>checkBuildReportFormat\<close> (lines 190 to 194).\<close>

definition checkBuildReportFormat :: "'w Environment \<Rightarrow> Report \<Rightarrow> Error + unit" where
  "checkBuildReportFormat env report =
     (if file_format_version report \<noteq> BUILD_REPORT_VERSION env then Inl MustRebuildException
      else Inr ())"

text \<open>
  \<open>checkBuildOrderChange\<close> (lines 196 to 208). The loop reads the report's order with
  \<open>at(i++)\<close>, which raises out of range.
\<close>

fun buildOrderLoop :: "Descriptor list \<Rightarrow> Descriptor list \<Rightarrow> nat \<Rightarrow> Error + unit" where
  "buildOrderLoop [] old_order i = Inr ()"
| "buildOrderLoop (new_descriptor # rest) old_order i =
     (if i < length old_order then
        (if old_order ! i \<noteq> new_descriptor then Inl MustRebuildException
         else buildOrderLoop rest old_order (i + 1))
      else Inl OutOfRange)"

definition checkBuildOrderChange :: "Report \<Rightarrow> Configuration \<Rightarrow> Error + unit" where
  "checkBuildOrderChange report config =
     (if length (build_order config) \<noteq> length (report_build_order report)
      then Inl MustRebuildException
      else buildOrderLoop (build_order config) (report_build_order report) 0)"

text \<open>
  \<open>checkProblematicLevelChanges\<close> (lines 216 to 253). The first loop collects the level
  numbers of the \<open>.mwl\<close> files; \<open>getInternalLevelNumber\<close> gives \<open>None\<close> when it returns
  no value or raises, and both end in the \<open>catch\<close> block. \<open>old_level_numbers\<close> is the set
  made of the report's array, so a number counts once.
\<close>

fun collectLevelNumbers :: "'w Environment \<Rightarrow> 'w \<Rightarrow> path list \<Rightarrow> int set \<Rightarrow> Error + int set" where
  "collectLevelNumbers env w [] new_level_numbers = Inr new_level_numbers"
| "collectLevelNumbers env w (entry # rest) new_level_numbers =
     (if extension env entry = ''.mwl'' then
        (case getInternalLevelNumber env entry w of
           None \<Rightarrow> Inl InsertionException
         | Some l \<Rightarrow> collectLevelNumbers env w rest (insert l new_level_numbers))
      else collectLevelNumbers env w rest new_level_numbers)"

definition checkProblematicLevelChanges ::
    "'w Environment \<Rightarrow> 'w \<Rightarrow> path \<Rightarrow> int list \<Rightarrow> Error + unit" where
  "checkProblematicLevelChanges env w levels_path old_level_numbers =
     (if \<not> fs_exists env levels_path w then Inl InsertionException
      else
        (case collectLevelNumbers env w (fs_directory_iterator env levels_path w) {} of
           Inl e \<Rightarrow> Inl e
         | Inr new_level_numbers \<Rightarrow>
             (let old_missing_from_new =
                length (filter (\<lambda>l. l \<notin> new_level_numbers) (remdups old_level_numbers))
              in if old_missing_from_new \<noteq> 0 then Inl MustRebuildException else Inr ())))"

text \<open>Lines 43 to 47 of \<open>build\<close>: the level check runs when \<open>levels\<close> is set.\<close>

definition checkLevels :: "'w Environment \<Rightarrow> Report \<Rightarrow> Configuration \<Rightarrow> 'w \<Rightarrow> Error + unit" where
  "checkLevels env report config w =
     (case levels config of
        None \<Rightarrow> Inr ()
      | Some levels_path \<Rightarrow>
          checkProblematicLevelChanges env w levels_path (inserted_levels report))"

text \<open>
  \<open>checkRebuildConfigDependencies\<close> (lines 255 to 273): the inner loop over the
  configuration dependencies of an entry, and the outer loop over the entries.
\<close>

fun rebuildConfigDependencies :: "ConfigurationDependency list \<Rightarrow> Configuration \<Rightarrow> Error + unit" where
  "rebuildConfigDependencies [] config = Inr ()"
| "rebuildConfigDependencies (config_dependency # rest) config =
     (if policy_c config_dependency = REBUILD
         \<and> value_c config_dependency \<noteq> getByKey config (config_keys config_dependency)
      then Inl MustRebuildException
      else rebuildConfigDependencies rest config)"

fun checkRebuildConfigDependencies :: "Entry list \<Rightarrow> Configuration \<Rightarrow> Error + unit" where
  "checkRebuildConfigDependencies [] config = Inr ()"
| "checkRebuildConfigDependencies (entry # rest) config =
     (case rebuildConfigDependencies (configuration_dependencies entry) config of
        Inl e \<Rightarrow> Inl e
      | Inr _ \<Rightarrow> checkRebuildConfigDependencies rest config)"

subsection \<open>The per-entry checks\<close>

text \<open>
  The timestamp both resource checks compute (lines 282 to 285 and 319 to 322): \<open>None\<close>
  when the file does not exist, else its last write time.
\<close>

definition new_timestamp :: "'w Environment \<Rightarrow> 'w \<Rightarrow> path \<Rightarrow> timestamp option" where
  "new_timestamp env w p =
     (if fs_exists env p w then Some (fs_last_write_time env p w) else None)"

text \<open>
  \<open>checkRebuildResourceDependencies\<close> (lines 275 to 297): the loop over the resource
  dependencies of an entry, and the \<open>while\<close> loop from \<open>dependencies.begin() +
  starting_index\<close> to the end.
\<close>

fun rebuildResourceDependencies :: "'w Environment \<Rightarrow> 'w \<Rightarrow> ResourceDependency list \<Rightarrow> Error + unit" where
  "rebuildResourceDependencies env w [] = Inr ()"
| "rebuildResourceDependencies env w (resource_dependency # rest) =
     (if policy_r resource_dependency = REBUILD
         \<and> new_timestamp env w (dependent_path resource_dependency)
             \<noteq> last_write_time resource_dependency
      then Inl MustRebuildException
      else rebuildResourceDependencies env w rest)"

fun rebuildResourceEntries :: "'w Environment \<Rightarrow> 'w \<Rightarrow> Entry list \<Rightarrow> Error + unit" where
  "rebuildResourceEntries env w [] = Inr ()"
| "rebuildResourceEntries env w (entry # rest) =
     (case rebuildResourceDependencies env w (resource_dependencies entry) of
        Inl e \<Rightarrow> Inl e
      | Inr _ \<Rightarrow> rebuildResourceEntries env w rest)"

definition checkRebuildResourceDependencies ::
    "'w Environment \<Rightarrow> 'w \<Rightarrow> Entry list \<Rightarrow> nat \<Rightarrow> Error + unit" where
  "checkRebuildResourceDependencies env w deps starting_index =
     rebuildResourceEntries env w (drop starting_index deps)"

text \<open>\<open>checkReinsertConfigDependencies\<close> (lines 299 to 313).\<close>

fun checkReinsertConfigDependencies ::
    "ConfigurationDependency list \<Rightarrow> Configuration \<Rightarrow> ConfigurationDependency option" where
  "checkReinsertConfigDependencies [] config = None"
| "checkReinsertConfigDependencies (config_dependency # rest) config =
     (if policy_c config_dependency = REINSERT
         \<and> value_c config_dependency \<noteq> getByKey config (config_keys config_dependency)
      then Some config_dependency
      else checkReinsertConfigDependencies rest config)"

text \<open>\<open>checkReinsertResourceDependencies\<close> (lines 315 to 329).\<close>

fun checkReinsertResourceDependencies ::
    "'w Environment \<Rightarrow> 'w \<Rightarrow> ResourceDependency list \<Rightarrow> ResourceDependency option" where
  "checkReinsertResourceDependencies env w [] = None"
| "checkReinsertResourceDependencies env w (resource_dependency # rest) =
     (if policy_r resource_dependency = REINSERT
         \<and> new_timestamp env w (dependent_path resource_dependency)
             \<noteq> last_write_time resource_dependency
      then Some resource_dependency
      else checkReinsertResourceDependencies env w rest)"

subsection \<open>Module cleanup\<close>

text \<open>
  \<open>std::stoi\<close> on a line of the cleanup file: white space is skipped, a sign is read,
  then decimal digits; what follows the digits is ignored. No digit raises
  \<open>std::invalid_argument\<close>, a value outside \<open>int\<close> raises \<open>std::out_of_range\<close>.
\<close>

definition isspace :: "char \<Rightarrow> bool" where
  "isspace c = (c \<in> set [CHR '' '', CHR 0x09, CHR 0x0A, CHR 0x0B, CHR 0x0C, CHR 0x0D])"

definition isdigit :: "char \<Rightarrow> bool" where
  "isdigit c = (c \<in> set ''0123456789'')"

definition digitValue :: "char \<Rightarrow> int" where
  "digitValue c = int (of_char c) - 48"

definition stoi :: "string \<Rightarrow> Error + int" where
  "stoi line =
     (let s = dropWhile isspace line;
          negative = (s \<noteq> [] \<and> hd s = CHR ''-'');
          unsigned = (if s \<noteq> [] \<and> (hd s = CHR ''-'' \<or> hd s = CHR ''+'') then tl s else s);
          digits = takeWhile isdigit unsigned;
          magnitude = foldl (\<lambda>a c. 10 * a + digitValue c) 0 digits;
          v = (if negative then - magnitude else magnitude)
      in if digits = [] then Inl InvalidArgument
         else if v < - (2 ^ 31) \<or> 2 ^ 31 \<le> v then Inl OutOfRange
         else Inr v)"

text \<open>
  The format \<open>{:06X}\<close> of an \<open>int\<close>: upper-case hexadecimal digits, padded with zeros to
  a width of at least 6; a negative value has its sign first, counted in the width.
\<close>

definition hexDigit :: "nat \<Rightarrow> char" where
  "hexDigit d = ''0123456789ABCDEF'' ! d"

fun hexDigits :: "nat \<Rightarrow> string" where
  "hexDigits n = (if n < 16 then [hexDigit n] else hexDigits (n div 16) @ [hexDigit (n mod 16)])"

declare hexDigits.simps [simp del]

definition format_06X :: "int \<Rightarrow> string" where
  "format_06X a =
     (let digits = hexDigits (nat \<bar>a\<bar>)
      in if a < 0 then CHR ''-'' # replicate (5 - length digits) CHR ''0'' @ digits
         else replicate (6 - length digits) CHR ''0'' @ digits)"

text \<open>
  The loop of lines 349 to 352 over the lines of the cleanup file: the text written to
  the temporary patch so far, and the exception of \<open>std::stoi\<close> that ended the loop, if
  any.
\<close>

fun autocleanSource :: "string list \<Rightarrow> string \<Rightarrow> string \<times> Error option" where
  "autocleanSource [] written = (written, None)"
| "autocleanSource (line # rest) written =
     (case stoi line of
        Inl e \<Rightarrow> (written, Some e)
      | Inr address \<Rightarrow>
          autocleanSource rest (written @ ''autoclean $'' @ format_06X address @ [CHR 0x0A]))"

text \<open>
  \<open>cleanModule\<close> (lines 331 to 408). \<open>rom_size\<close> is the size converted to \<open>int\<close>, a
  32-bit word here; \<open>rom_bytes.data() + header_size\<close> is the vector without its first
  \<open>header_size\<close> bytes, which the assembler changes in place.
\<close>

definition cleanModule :: "'w Environment \<Rightarrow> path \<Rightarrow> path \<Rightarrow> path \<Rightarrow> ('w, unit) action" where
  "cleanModule env module_source_path temporary_rom_path root =
     (let cleanup_file = cleanupFilePath env module_source_path root in
      next_do (check (\<lambda>s. if \<not> fs_exists env cleanup_file (world s)
                            then Inl MustRebuildException else Inr ()))
     (bind (get (\<lambda>s. uniquePatchPath env (world s))) (\<lambda>patch_path.
      bind (get (\<lambda>s. autocleanSource (readLines env cleanup_file (world s)) [])) (\<lambda>(source, failure).
      next_do (call env (WriteText patch_path source))
     (next_do (check (\<lambda>s. case failure of Some e \<Rightarrow> Inl e | None \<Rightarrow> Inr ()))
     (bind (get (\<lambda>s. readBytes env temporary_rom_path (world s))) (\<lambda>rom_bytes.
        let rom_size = (of_nat (length rom_bytes) :: 32 word);
            header_size = rom_size AND 0x7FFF;
            unheadered_rom_size = rom_size - header_size;
            params = \<lparr> patchloc = patch_path,
                       romdata = drop (unat header_size) rom_bytes,
                       buflen = MAX_ROM_SIZE env,
                       romlen = unheadered_rom_size,
                       should_reset = True,
                       override_checksum_gen = True,
                       generate_checksum = False \<rparr>
        in next_do (call env AsarInit)
          (next_do (check (\<lambda>s. if \<not> asar_init env (world s)
                                 then Inl ToolNotFoundException else Inr ()))
          (next_do (call env (AsarPatchEx params))
          (bind (get (\<lambda>s. asar_patch_ex env params (world s))) (\<lambda>(succeeded, buffer).
             if succeeded
             then call env (WriteBytes temporary_rom_path
                              (take (unat header_size) rom_bytes @ buffer))
             else throw MustRebuildException)))))))))))"

subsection \<open>Restoring the outputs of an unchanged module\<close>

text \<open>\<open>copyOldModuleOutput\<close> (lines 410 to 426).\<close>

fun copyOldModuleOutput :: "'w Environment \<Rightarrow> path list \<Rightarrow> path \<Rightarrow> ('w, unit) action" where
  "copyOldModuleOutput env [] root = return_ok ()"
| "copyOldModuleOutput env (output_path # rest) root =
     (let source = oldSymbolsSource env output_path root;
          target = userModuleTarget env output_path root
      in next_do (check (\<lambda>s. if \<not> fs_exists env source (world s)
                               then Inl MustRebuildException else Inr ()))
        (next_do (call env (FsCreateDirectories (parent_path env target)))
        (next_do (call env (FsCopyFile source target))
        (copyOldModuleOutput env rest root))))"

subsection \<open>The driver\<close>

text \<open>
  Lines 65 to 89 of \<open>build\<close>: the entry is classified. The configuration dependencies
  are walked first, the resource dependencies only when no configuration dependency
  mismatches; the message names the key, or the path (which the source prints relative
  to the project root).
\<close>

definition classify :: "'w Environment \<Rightarrow> Configuration \<Rightarrow> Entry \<Rightarrow> ('w, bool) action" where
  "classify env config entry =
     (case checkReinsertConfigDependencies (configuration_dependencies entry) config of
        Some config_result \<Rightarrow>
          next_do (logMessage (MustBeReinsertedDueToConfig (descriptor entry)
                                 (config_keys config_result)))
            (return_ok True)
      | None \<Rightarrow>
          bind (get (\<lambda>s. checkReinsertResourceDependencies env (world s)
                            (resource_dependencies entry))) (\<lambda>resource_result.
            case resource_result of
              Some r \<Rightarrow>
                next_do (logMessage (MustBeReinsertedDueToResource (descriptor entry)
                                       (dependent_path r)))
                  (return_ok True)
            | None \<Rightarrow> return_ok False))"

text \<open>
  \<open>descriptor.name.value()\<close>: the name of a module, or \<open>std::bad_optional_access\<close>.
\<close>

definition name_value :: "Descriptor \<Rightarrow> Error + string" where
  "name_value d = (case name d of None \<Rightarrow> Inl BadOptionalAccess | Some n \<Rightarrow> Inr n)"

text \<open>
  Lines 109 to 114: \<open>insertWithDependencies\<close> in its \<open>try\<close> block. The exception
  \<open>NoDependencyReportFound\<close> is caught and stored, any other one is raised.
\<close>

definition tryInsertWithDependencies :: "'w Environment \<Rightarrow> Descriptor \<Rightarrow> ('w, unit) action" where
  "tryInsertWithDependencies env d = (\<lambda>s.
     case call env (InsertWithDependencies d) s of
       (Inl e, s') \<Rightarrow>
         if e = NoDependencyReportFound
         then (Inr (), s'\<lparr>failed_dependency_report := Some e\<rparr>)
         else (Inl e, s')
     | (Inr u, s') \<Rightarrow> (Inr (), s'))"

text \<open>
  Lines 92 to 95: the first entry that is reinserted copies the ROM of the previous
  build to the temporary path.
\<close>

definition copyRomOnce :: "'w Environment \<Rightarrow> Configuration \<Rightarrow> path \<Rightarrow> ('w, unit) action" where
  "copyRomOnce env config temporary_rom_path =
     bind (get any_work_done) (\<lambda>work_done.
       if \<not> work_done then
         next_do (modify (\<lambda>s. s\<lparr>any_work_done := True\<rparr>))
           (bind (check (\<lambda>s. getOrThrow (output_rom config))) (\<lambda>rom.
              call env (FsCopy rom temporary_rom_path)))
       else return_ok ())"

text \<open>
  Lines 107 to 131: the insertion. \<open>entry\<close> of the source is a reference to the
  element \<open>i\<close> of \<open>report["dependencies"]\<close>, so its fields are written in the list of
  the state.
\<close>

definition insertEntry :: "'w Environment \<Rightarrow> nat \<Rightarrow> Descriptor \<Rightarrow> ('w, unit) action" where
  "insertEntry env i d =
     bind (get failed_dependency_report) (\<lambda>failed.
       if failed = None then
         next_do (tryInsertWithDependencies env d)
           (bind (get failed_dependency_report) (\<lambda>failed_now.
              if failed_now = None then
                modify (\<lambda>s. s\<lparr>dependencies := (dependencies s)
                  [i := (dependencies s ! i)
                     \<lparr>configuration_dependencies := getConfigurationDependencies env d (world s),
                      resource_dependencies := reportedDependencies env d (world s)\<rparr>]\<rparr>)
              else return_ok ()))
       else call env (Insert d))"

text \<open>Lines 133 to 145: the hijacks of a patch are validated, then stored.\<close>

definition validateHijacks :: "'w Environment \<Rightarrow> nat \<Rightarrow> Descriptor \<Rightarrow> ('w, unit) action" where
  "validateHijacks env i d =
     (if symbol d = PATCH then
        bind (get (\<lambda>s. hijacks (dependencies s ! i))) (\<lambda>old_hijacks.
        bind (get (\<lambda>s. getHijacks env d (world s))) (\<lambda>new_hijacks.
          if hijacksGoneBad old_hijacks new_hijacks then throw MustRebuildException
          else modify (\<lambda>s. s\<lparr>dependencies := (dependencies s)
                 [i := (dependencies s ! i)\<lparr>hijacks := new_hijacks\<rparr>]\<rparr>)))
      else return_ok ())"

text \<open>
  Lines 96 to 145: the module is cleaned, the insertable is made and initialised, the
  entry is inserted and the hijacks are validated.
\<close>

definition insertionSteps ::
    "'w Environment \<Rightarrow> path \<Rightarrow> path \<Rightarrow> nat \<Rightarrow> Descriptor \<Rightarrow> ('w, unit) action" where
  "insertionSteps env temporary_rom_path root i d =
     next_do (if symbol d = MODULE
              then bind (check (\<lambda>s. name_value d)) (\<lambda>module_name.
                     cleanModule env module_name temporary_rom_path root)
              else return_ok ())
    (next_do (call env (DescriptorToInsertable d))
    (next_do (call env (InsertableInit d))
    (next_do (insertEntry env i d)
    (validateHijacks env i d))))"

text \<open>Lines 91 to 146: the entry at index \<open>i\<close> is reinserted.\<close>

definition reinsert ::
    "'w Environment \<Rightarrow> Configuration \<Rightarrow> path \<Rightarrow> path \<Rightarrow> nat \<Rightarrow> Descriptor \<Rightarrow> ('w, unit) action" where
  "reinsert env config temporary_rom_path root i d =
     next_do (copyRomOnce env config temporary_rom_path)
       (insertionSteps env temporary_rom_path root i d)"

text \<open>Lines 148 to 156: the entry is up to date.\<close>

definition keep :: "'w Environment \<Rightarrow> Report \<Rightarrow> path \<Rightarrow> Descriptor \<Rightarrow> ('w, unit) action" where
  "keep env report root d =
     next_do (if symbol d = MODULE
              then bind (check (\<lambda>s. name_value d)) (\<lambda>module_name.
                     copyOldModuleOutput env (module_outputs report module_name) root)
              else return_ok ())
       (logMessage (AlreadyUpToDate d))"

text \<open>Lines 62 to 157: the body of the loop of \<open>build\<close>, at the index \<open>i\<close>.\<close>

definition processEntry ::
    "'w Environment \<Rightarrow> Configuration \<Rightarrow> Report \<Rightarrow> path \<Rightarrow> nat \<Rightarrow> ('w, unit) action" where
  "processEntry env config report temporary_rom_path i =
     bind (check (\<lambda>s. getOrThrow (project_root config))) (\<lambda>root.
     next_do (check (\<lambda>s. checkRebuildResourceDependencies env (world s) (dependencies s) i))
    (bind (get (\<lambda>s. dependencies s ! i)) (\<lambda>entry.
     bind (classify env config entry) (\<lambda>must_reinsert.
       if must_reinsert then reinsert env config temporary_rom_path root i (descriptor entry)
       else keep env report root (descriptor entry)))))"

text \<open>The loop of line 61 over the elements of \<open>report["dependencies"]\<close>, by index.\<close>

fun entryLoop ::
    "'w Environment \<Rightarrow> Configuration \<Rightarrow> Report \<Rightarrow> path \<Rightarrow> nat list \<Rightarrow> ('w, unit) action" where
  "entryLoop env config report temporary_rom_path [] = return_ok ()"
| "entryLoop env config report temporary_rom_path (i # rest) =
     next_do (processEntry env config report temporary_rom_path i)
       (entryLoop env config report temporary_rom_path rest)"

text \<open>Lines 160 to 187: the end of \<open>build\<close>.\<close>

definition commit :: "'w Environment \<Rightarrow> Configuration \<Rightarrow> path \<Rightarrow> ('w, Result) action" where
  "commit env config temporary_rom_path =
     bind (get any_work_done) (\<lambda>done.
       if done then
         next_do (bind (get failed_dependency_report) (\<lambda>failed.
            if failed = None
            then bind (get dependencies) (\<lambda>deps. call env (WriteBuildReport deps))
            else next_do (logMessage QuickbuildNotApplicable) (call env RemoveBuildReport)))
        (next_do (call env CacheModules)
        (next_do (call env (WriteMarkerToRom temporary_rom_path))
        (next_do (call env MoveTempToOutput)
        (next_do (call env (LinkOutputRomToProjectGraphics False))
        (next_do (call env (LinkOutputRomToProjectGraphics True))
        (next_do (bind (check (\<lambda>s. getOrThrow (temporary_folder config))) (\<lambda>tmp.
                    call env (FsRemoveAll tmp)))
        (return_ok SUCCESS)))))))
       else return_ok NO_WORK)"

text \<open>
  Lines 54 to 56: \<open>temporary_rom_path\<close>, from two configuration variables.
\<close>

definition temporaryRomPath :: "'w Environment \<Rightarrow> Configuration \<Rightarrow> Error + path" where
  "temporaryRomPath env config =
     (case getOrThrow (temporary_folder config) of
        Inl e \<Rightarrow> Inl e
      | Inr tmp \<Rightarrow>
          (case getOrThrow (output_rom config) of
             Inl e \<Rightarrow> Inl e
           | Inr rom \<Rightarrow> Inr (getTemporaryRomPath env tmp rom)))"

text \<open>
  Lines 54 to 187 of \<open>build\<close>: what follows the per-report checks.
\<close>

definition entriesPhase :: "'w Environment \<Rightarrow> Configuration \<Rightarrow> Report \<Rightarrow> ('w, Result) action" where
  "entriesPhase env config report =
     bind (check (\<lambda>s. temporaryRomPath env config)) (\<lambda>temporary_rom_path.
     next_do (modify (\<lambda>s. s\<lparr>any_work_done := False, failed_dependency_report := None\<rparr>))
    (next_do (bind (get (\<lambda>s. length (dependencies s))) (\<lambda>n.
                entryLoop env config report temporary_rom_path [0..<n]))
    (commit env config temporary_rom_path)))"

text \<open>
  Lines 21 to 52 of \<open>build\<close>: the per-report checks, each between the message that
  announces it and the message that tells it passed. The level check and its two
  messages are run when \<open>levels\<close> is set.
\<close>

definition perReportChecks :: "'w Environment \<Rightarrow> Configuration \<Rightarrow> Report \<Rightarrow> ('w, unit) action" where
  "perReportChecks env config report =
     next_do (logMessage QuickBuildStarted)
    (next_do (call env BuilderInit)
    (next_do (logMessage CheckingRomExists)
    (next_do (check (\<lambda>s. checkOutputRomExists env config (world s)))
    (next_do (bind (check (\<lambda>s. getOrThrow (output_rom config))) (\<lambda>rom.
                logMessage (RomFound rom)))
    (next_do (logMessage CheckingRomSize)
    (next_do (check (\<lambda>s. checkRebuildRomSize report config))
    (next_do (logMessage RomSizeUnchanged)
    (next_do (logMessage CheckingReportFormat)
    (next_do (check (\<lambda>s. checkBuildReportFormat env report))
    (next_do (logMessage ReportFormatUnchanged)
    (next_do (logMessage CheckingBuildOrder)
    (next_do (check (\<lambda>s. checkBuildOrderChange report config))
    (next_do (logMessage BuildOrderUnchanged)
    (next_do (if levels config \<noteq> None
              then next_do (logMessage CheckingLevels)
                  (next_do (check (\<lambda>s. checkLevels env report config (world s)))
                    (logMessage LevelsUnchanged))
              else return_ok ())
    (next_do (logMessage CheckingConfiguration)
    (next_do (check (\<lambda>s. checkRebuildConfigDependencies (dependencies s) config))
    (logMessage ConfigurationUnchanged)))))))))))))))))"

text \<open>
  \<open>build\<close> (lines 18 to 188). The clock, the two messages that close the build
  (lines 181 and 185) and the debug message of \<open>cleanModule\<close> are left out.
\<close>

definition build :: "'w Environment \<Rightarrow> Configuration \<Rightarrow> Report \<Rightarrow> ('w, Result) action" where
  "build env config report =
     next_do (perReportChecks env config report) (entriesPhase env config report)"

text \<open>
  The state \<open>build\<close> starts in: the world as it is, no call made, and the list
  \<open>report["dependencies"]\<close> as the constructor of \<open>QuickBuilder\<close> parsed it.
\<close>

definition initial :: "'w \<Rightarrow> Entry list \<Rightarrow> 'w State" where
  "initial w deps =
     \<lparr> world = w, trace = [], dependencies = deps,
       any_work_done = False, failed_dependency_report = None \<rparr>"

subsection \<open>The specification's terms\<close>

text \<open>
  A dependency of policy \<open>Rebuild\<close> or \<open>Reinsert\<close> mismatches when its recorded value, or
  its recorded timestamp, differs from the current one.
\<close>

definition rebuildConfigMismatch :: "Configuration \<Rightarrow> ConfigurationDependency \<Rightarrow> bool" where
  "rebuildConfigMismatch config d \<longleftrightarrow>
     policy_c d = REBUILD \<and> value_c d \<noteq> getByKey config (config_keys d)"

definition reinsertConfigMismatch :: "Configuration \<Rightarrow> ConfigurationDependency \<Rightarrow> bool" where
  "reinsertConfigMismatch config d \<longleftrightarrow>
     policy_c d = REINSERT \<and> value_c d \<noteq> getByKey config (config_keys d)"

definition rebuildResourceMismatch :: "'w Environment \<Rightarrow> 'w \<Rightarrow> ResourceDependency \<Rightarrow> bool" where
  "rebuildResourceMismatch env w d \<longleftrightarrow>
     policy_r d = REBUILD \<and> new_timestamp env w (dependent_path d) \<noteq> last_write_time d"

definition reinsertResourceMismatch :: "'w Environment \<Rightarrow> 'w \<Rightarrow> ResourceDependency \<Rightarrow> bool" where
  "reinsertResourceMismatch env w d \<longleftrightarrow>
     policy_r d = REINSERT \<and> new_timestamp env w (dependent_path d) \<noteq> last_write_time d"

text \<open>
  The level numbers of the \<open>.mwl\<close> files in the levels folder, and whether one of these
  files has no level number that can be determined.
\<close>

definition currentLevelNumbers :: "'w Environment \<Rightarrow> 'w \<Rightarrow> path \<Rightarrow> int set" where
  "currentLevelNumbers env w levels_path =
     {l. \<exists>e\<in>set (fs_directory_iterator env levels_path w).
           extension env e = ''.mwl'' \<and> getInternalLevelNumber env e w = Some l}"

definition undeterminedLevel :: "'w Environment \<Rightarrow> 'w \<Rightarrow> path \<Rightarrow> bool" where
  "undeterminedLevel env w levels_path \<longleftrightarrow>
     (\<exists>e\<in>set (fs_directory_iterator env levels_path w).
        extension env e = ''.mwl'' \<and> getInternalLevelNumber env e w = None)"

text \<open>Kinds of calls in a trace.\<close>

fun isReinsertMessage :: "Effect \<Rightarrow> bool" where
  "isReinsertMessage (Log (MustBeReinsertedDueToConfig d k)) = True"
| "isReinsertMessage (Log (MustBeReinsertedDueToResource d p)) = True"
| "isReinsertMessage eff = False"

fun isRomCopy :: "Effect \<Rightarrow> bool" where
  "isRomCopy (FsCopy source target) = True"
| "isRomCopy eff = False"

fun isCommitEffect :: "Effect \<Rightarrow> bool" where
  "isCommitEffect (WriteBuildReport deps) = True"
| "isCommitEffect RemoveBuildReport = True"
| "isCommitEffect CacheModules = True"
| "isCommitEffect (WriteMarkerToRom p) = True"
| "isCommitEffect MoveTempToOutput = True"
| "isCommitEffect (LinkOutputRomToProjectGraphics b) = True"
| "isCommitEffect eff = False"

text \<open>The calls the loop body makes, \<open>insertWithDependencies\<close> apart.\<close>

fun entryEffect :: "Effect \<Rightarrow> bool" where
  "entryEffect (FsCopy source target) = True"
| "entryEffect (FsCopyFile source target) = True"
| "entryEffect (FsCreateDirectories p) = True"
| "entryEffect (WriteText p t) = True"
| "entryEffect (WriteBytes p b) = True"
| "entryEffect AsarInit = True"
| "entryEffect (AsarPatchEx p) = True"
| "entryEffect (DescriptorToInsertable d) = True"
| "entryEffect (InsertableInit d) = True"
| "entryEffect (Insert d) = True"
| "entryEffect (Log (MustBeReinsertedDueToConfig d k)) = True"
| "entryEffect (Log (MustBeReinsertedDueToResource d p)) = True"
| "entryEffect (Log (AlreadyUpToDate d)) = True"
| "entryEffect eff = False"


fun isInsertion :: "Effect \<Rightarrow> bool" where
  "isInsertion (InsertWithDependencies d) = True"
| "isInsertion (Insert d) = True"
| "isInsertion eff = False"


text \<open>
  What the trace of \<open>build\<close> holds when the per-report check number \<open>n\<close> is the
  one being run, the checks before it having passed: the message of the start, the call
  of \<open>init\<close>, and for each check the message that announces it, preceded by the message
  that tells the check before it passed. The checks are numbered from 1 (the ROM of the
  previous build exists) to 6 (the configuration dependencies of policy \<open>Rebuild\<close>);
  with \<open>n = 7\<close> all of them have passed.
\<close>

definition checksReached :: "Configuration \<Rightarrow> path \<Rightarrow> nat \<Rightarrow> Effect list" where
  "checksReached config rom n =
     [Log QuickBuildStarted, BuilderInit, Log CheckingRomExists]
     @ (if 1 < n then [Log (RomFound rom), Log CheckingRomSize] else [])
     @ (if 2 < n then [Log RomSizeUnchanged, Log CheckingReportFormat] else [])
     @ (if 3 < n then [Log ReportFormatUnchanged, Log CheckingBuildOrder] else [])
     @ (if 4 < n then [Log BuildOrderUnchanged]
          @ (if levels config \<noteq> None then [Log CheckingLevels] else []) else [])
     @ (if 5 < n then (if levels config \<noteq> None then [Log LevelsUnchanged] else [])
          @ [Log CheckingConfiguration] else [])
     @ (if 6 < n then [Log ConfigurationUnchanged] else [])"

text \<open>
  What holds between two entries of the loop of \<open>build\<close>: \<open>any_work_done\<close> is set iff an
  entry was classified for reinsertion (its message is in the trace), iff the ROM was
  copied to the temporary path, iff an entry was inserted.
\<close>

definition workRecorded :: "'w State \<Rightarrow> bool" where
  "workRecorded s \<longleftrightarrow>
     (any_work_done s \<longleftrightarrow> (\<exists>eff\<in>set (trace s). isReinsertMessage eff))
     \<and> (any_work_done s \<longleftrightarrow> (\<exists>eff\<in>set (trace s). isRomCopy eff))
     \<and> (any_work_done s \<longleftrightarrow> (\<exists>eff\<in>set (trace s). isInsertion eff))"

subsection \<open>Assertions on actions\<close>

text \<open>
  \<open>frame A f s s'\<close>: the state \<open>s'\<close> comes from \<open>s\<close> by calls that all satisfy \<open>A\<close>, and
  \<open>f\<close> has the same value in both. \<open>preserves P R m\<close>: from a state where \<open>P\<close> holds, the
  action \<open>m\<close> ends (normally or not) in a state related by \<open>R\<close> where \<open>P\<close> holds again.
\<close>

definition frame :: "(Effect \<Rightarrow> bool) \<Rightarrow> ('w State \<Rightarrow> 'x) \<Rightarrow> 'w State \<Rightarrow> 'w State \<Rightarrow> bool" where
  "frame A f s s' \<longleftrightarrow> f s' = f s \<and> (\<exists>t. trace s' = trace s @ t \<and> list_all A t)"

definition preserves ::
    "('w State \<Rightarrow> bool) \<Rightarrow> ('w State \<Rightarrow> 'w State \<Rightarrow> bool) \<Rightarrow> ('w, 'a) action \<Rightarrow> bool" where
  "preserves P R m \<longleftrightarrow> (\<forall>s. P s \<longrightarrow> R s (snd (m s)) \<and> P (snd (m s)))"

definition local_only :: "('w State \<Rightarrow> 'x) \<Rightarrow> bool" where
  "local_only f \<longleftrightarrow> (\<forall>s w t. f (s\<lparr>world := w\<rparr>) = f s \<and> f (s\<lparr>trace := t\<rparr>) = f s)"

subsection \<open>A scenario\<close>

text \<open>
  The scenario of the specification's end-to-end examples: the build order is
  \<open>Graphics\<close>, then the patch \<open>foo.asm\<close>, then the module \<open>m.asm\<close>; the patch has one
  \<open>Reinsert\<close> resource dependency, on \<open>foo.asm\<close>, recorded with the timestamp 1000, and
  the hijacks \<open>(0x108000, 16)\<close> and \<open>(0x108100, 4)\<close>. The world is the map from the
  files that exist to their timestamps. \<open>failing\<close> gives the exception a call raises.
\<close>

definition scenario_world :: "timestamp \<Rightarrow> path \<Rightarrow> timestamp option" where
  "scenario_world now =
     (\<lambda>p. if p = ''foo.asm'' then Some now
          else if p \<in> set [''hack.smc'', ''levels'', ''m.addr'', ''old/m.bin''] then Some 1000
          else None)"

definition scenario_env ::
    "hijack list \<Rightarrow> (Effect \<Rightarrow> Error option) \<Rightarrow> (path \<Rightarrow> timestamp option) Environment" where
  "scenario_env new_hijacks failing =
    \<lparr> BUILD_REPORT_VERSION = 4,
      MAX_ROM_SIZE = 16777216,
      perform = (\<lambda>eff w. (w, failing eff)),
      fs_exists = (\<lambda>p w. w p \<noteq> None),
      fs_last_write_time = (\<lambda>p w. case w p of Some t \<Rightarrow> t | None \<Rightarrow> 0),
      fs_directory_iterator = (\<lambda>p w. [''105.mwl'', ''notes.txt'']),
      extension = (\<lambda>p. drop (length p - 4) p),
      getInternalLevelNumber = (\<lambda>p w. if p = ''105.mwl'' then Some 261 else None),
      getTemporaryRomPath = (\<lambda>tmp rom. ''temp.smc''),
      cleanupFilePath = (\<lambda>m root. ''m.addr''),
      uniquePatchPath = (\<lambda>w. ''patch.asm''),
      readLines = (\<lambda>p w. [''1081344'']),
      readBytes = (\<lambda>p w. replicate 514 0),
      asar_init = (\<lambda>w. True),
      asar_patch_ex = (\<lambda>params w. (True, romdata params)),
      oldSymbolsSource = (\<lambda>p root. ''old/'' @ p),
      userModuleTarget = (\<lambda>p root. ''modules/'' @ p),
      parent_path = (\<lambda>p. ''modules''),
      reportedDependencies = (\<lambda>d w.
        [\<lparr>dependent_path = ''foo.asm'', last_write_time = w ''foo.asm'', policy_r = REINSERT\<rparr>]),
      getConfigurationDependencies = (\<lambda>d w. []),
      getHijacks = (\<lambda>d w. new_hijacks) \<rparr>"

definition scenario_order :: "Descriptor list" where
  "scenario_order =
     [\<lparr>symbol = GRAPHICS, name = None\<rparr>,
      \<lparr>symbol = PATCH, name = Some ''foo.asm''\<rparr>,
      \<lparr>symbol = MODULE, name = Some ''m.asm''\<rparr>]"

definition scenario_config :: Configuration where
  "scenario_config =
    \<lparr> output_rom = Some ''hack.smc'', rom_size = Some 4194304, build_order = scenario_order,
      levels = Some ''levels'', project_root = Some ''project'', temporary_folder = Some ''tmp'',
      getByKey = (\<lambda>k. JNull) \<rparr>"

definition scenario_report :: Report where
  "scenario_report =
    \<lparr> file_format_version = 4, report_build_order = scenario_order,
      report_rom_size = Some 4194304, inserted_levels = [261],
      module_outputs = (\<lambda>m. [''m.bin'']) \<rparr>"

definition graphics_entry :: Entry where
  "graphics_entry =
     \<lparr> descriptor = \<lparr>symbol = GRAPHICS, name = None\<rparr>, configuration_dependencies = [],
       resource_dependencies = [], hijacks = [] \<rparr>"

definition patch_dependency :: ResourceDependency where
  "patch_dependency =
     \<lparr>dependent_path = ''foo.asm'', last_write_time = Some 1000, policy_r = REINSERT\<rparr>"

definition patch_entry :: Entry where
  "patch_entry =
     \<lparr> descriptor = \<lparr>symbol = PATCH, name = Some ''foo.asm''\<rparr>,
       configuration_dependencies = [],
       resource_dependencies = [patch_dependency],
       hijacks = [(0x108000, 16), (0x108100, 4)] \<rparr>"

definition module_entry :: Entry where
  "module_entry =
     \<lparr> descriptor = \<lparr>symbol = MODULE, name = Some ''m.asm''\<rparr>,
       configuration_dependencies = [],
       resource_dependencies = [], hijacks = [] \<rparr>"

definition scenario_dependencies :: "Entry list" where
  "scenario_dependencies = [graphics_entry, patch_entry, module_entry]"

definition nothing_fails :: "Effect \<Rightarrow> Error option" where
  "nothing_fails eff = None"

text \<open>An entry with a \<open>Rebuild\<close> resource dependency on \<open>foo.asm\<close>.\<close>

definition rebuild_dependency :: ResourceDependency where
  "rebuild_dependency = \<lparr>dependent_path = ''foo.asm'', last_write_time = Some 1000, policy_r = REBUILD\<rparr>"

definition rebuild_entry :: Entry where
  "rebuild_entry = \<lparr> descriptor = \<lparr>symbol = PATCH, name = Some ''foo.asm''\<rparr>,
       configuration_dependencies = [],
       resource_dependencies = [rebuild_dependency], hijacks = [] \<rparr>"

text \<open>
  The value of a string of upper-case hexadecimal digits, and the directive the cleanup
  writes for an address.
\<close>

definition hexDigitValue :: "char \<Rightarrow> nat" where
  "hexDigitValue c = (if isdigit c then of_char c - 48 else of_char c - 55)"

definition hexValue :: "string \<Rightarrow> nat" where
  "hexValue s = foldl (\<lambda>a c. 16 * a + hexDigitValue c) 0 s"

definition autocleanDirective :: "int \<Rightarrow> string" where
  "autocleanDirective a = ''autoclean $'' @ format_06X a @ [CHR 0x0A]"




subsection \<open>Lemmas on the hijack validator\<close>

lemma count_down_set:
  assumes "(i::size_t) \<noteq> number"
  shows "{k. k < unat (number - i)} = insert 0 (Suc ` {k. k < unat (number - (i + 1))})"
proof -
  from assms have nz: "number - i \<noteq> 0" by simp
  have e: "number - (i + 1) = (number - i) - 1" by simp
  have m: "unat (number - (i + 1)) = unat (number - i) - 1"
    unfolding e using nz by (rule unat_minus_one)
  have p: "0 < unat (number - i)" using nz by (simp add: unat_gt_0)
  show ?thesis
  proof (rule set_eqI)
    fix k
    show "k \<in> {k. k < unat (number - i)} \<longleftrightarrow>
          k \<in> insert 0 (Suc ` {k. k < unat (number - (i + 1))})"
      using m p by (cases k) (auto simp: image_iff)
  qed
qed

lemma range_from_step:
  assumes "(i::size_t) \<noteq> number"
  shows "(\<lambda>k. address + i + of_nat k) ` {k. k < unat (number - i)} =
         insert (address + i)
           ((\<lambda>k. address + (i + 1) + of_nat k) ` {k. k < unat (number - (i + 1))})"
  unfolding count_down_set [OF assms]
  by (simp add: image_image add.assoc add.left_commute)

lemma insertRange_eq:
  "insertRange address number i written =
     written \<union> (\<lambda>k. address + i + of_nat k) ` {k. k < unat (number - i)}"
proof (induction address number i written rule: insertRange.induct)
  case (1 address number i written)
  show ?case
  proof (cases "i = number")
    case True
    then show ?thesis by (simp add: insertRange.simps)
  next
    case False
    with 1 range_from_step [OF False, of address] show ?thesis
      by (subst insertRange.simps) auto
  qed
qed

lemma rangeMissing_iff:
  "rangeMissing written address number i \<longleftrightarrow>
     \<not> (\<lambda>k. address + i + of_nat k) ` {k. k < unat (number - i)} \<subseteq> written"
proof (induction written address number i rule: rangeMissing.induct)
  case (1 written address number i)
  show ?case
  proof (cases "i = number")
    case True
    then show ?thesis by (simp add: rangeMissing.simps)
  next
    case False
    with 1 range_from_step [OF False, of address] show ?thesis
      by (subst rangeMissing.simps) auto
  qed
qed

lemma insertRange_0: "insertRange address number 0 written = written \<union> rangeAddresses (address, number)"
  by (simp add: insertRange_eq rangeAddresses_def)

lemma rangeMissing_0:
  "rangeMissing written address number 0 \<longleftrightarrow> \<not> rangeAddresses (address, number) \<subseteq> written"
  by (simp add: rangeMissing_iff rangeAddresses_def)

lemma newWrittenAddresses_eq: "newWrittenAddresses hs written = written \<union> addressSet hs"
  by (induction hs written rule: newWrittenAddresses.induct)
     (auto simp: insertRange_0 addressSet_def)

lemma anyOldMissing_iff: "anyOldMissing written hs \<longleftrightarrow> \<not> addressSet hs \<subseteq> written"
  by (induction written hs rule: anyOldMissing.induct)
     (auto simp: rangeMissing_0 addressSet_def)

lemma hijacksGoneBad_subset:
  "hijacksGoneBad old_hijacks new_hijacks \<longleftrightarrow> \<not> addressSet old_hijacks \<subseteq> addressSet new_hijacks"
  by (simp add: hijacksGoneBad_def anyOldMissing_iff newWrittenAddresses_eq)

lemma rangeAddresses_zero: "rangeAddresses (address, 0) = {}"
  by (simp add: rangeAddresses_def)

lemma rangeAddresses_empty_iff: "rangeAddresses h = {} \<longleftrightarrow> snd h = 0"
proof -
  have "{k. k < unat (snd h)} = {} \<longleftrightarrow> unat (snd h) = 0"
    by auto
  then show ?thesis
    by (simp add: rangeAddresses_def unat_eq_0)
qed

lemma rangeAddresses_split:
  assumes "unat n + unat m < 2 ^ 64"
  shows "rangeAddresses (address, n + m) =
         rangeAddresses (address, n) \<union> rangeAddresses (address + n, m)"
proof -
  have u: "unat (n + m) = unat n + unat m"
    using assms by (simp add: unat_add_lem [THEN iffD1])
  have s: "{k. k < unat n + unat m} = {k. k < unat n} \<union> (\<lambda>k. unat n + k) ` {k. k < unat m}"
  proof (rule set_eqI)
    fix k
    show "k \<in> {k. k < unat n + unat m} \<longleftrightarrow>
          k \<in> {k. k < unat n} \<union> (\<lambda>k. unat n + k) ` {k. k < unat m}"
    proof (cases "k < unat n")
      case True
      then show ?thesis by simp
    next
      case False
      then show ?thesis
        by (auto simp: image_iff intro: exI [of _ "k - unat n"])
    qed
  qed
  show ?thesis
    by (simp add: rangeAddresses_def u s image_Un image_image add.assoc)
qed

lemma addressSet_Nil: "addressSet [] = {}"
  by (simp add: addressSet_def)

lemma addressSet_Cons: "addressSet (h # hs) = rangeAddresses h \<union> addressSet hs"
  by (simp add: addressSet_def)

lemma addressSet_append: "addressSet (xs @ ys) = addressSet xs \<union> addressSet ys"
  by (auto simp: addressSet_def)

lemma addressSet_mset: "mset xs = mset ys \<Longrightarrow> addressSet xs = addressSet ys"
proof -
  assume "mset xs = mset ys"
  then have "set xs = set ys" by (rule mset_eq_setD)
  then show ?thesis by (simp add: addressSet_def)
qed

lemma addressSet_empty_iff: "addressSet hs = {} \<longleftrightarrow> (\<forall>h\<in>set hs. snd h = 0)"
  by (simp add: addressSet_def rangeAddresses_empty_iff)

subsection \<open>Lemmas on the checks\<close>

lemma checkRebuildRomSize_eq:
  "checkRebuildRomSize report config =
     (case rom_size config of
        None \<Rightarrow> Inl ConfigException
      | Some configured \<Rightarrow>
          if report_rom_size report = Some configured then Inr () else Inl MustRebuildException)"
  by (cases "rom_size config"; cases "report_rom_size report")
     (simp_all add: checkRebuildRomSize_def getOrThrow_def)

lemma rebuildResourceDependencies_eq:
  "rebuildResourceDependencies env w rds =
     (if \<exists>d\<in>set rds. rebuildResourceMismatch env w d then Inl MustRebuildException else Inr ())"
  by (induction rds) (auto simp: rebuildResourceMismatch_def)

lemma rebuildResourceEntries_eq:
  "rebuildResourceEntries env w entries =
     (if \<exists>e\<in>set entries. \<exists>d\<in>set (resource_dependencies e). rebuildResourceMismatch env w d
      then Inl MustRebuildException else Inr ())"
  by (induction entries) (auto simp: rebuildResourceDependencies_eq)

lemma checkRebuildResourceDependencies_eq:
  "checkRebuildResourceDependencies env w deps i =
     (if \<exists>e\<in>set (drop i deps). \<exists>d\<in>set (resource_dependencies e). rebuildResourceMismatch env w d
      then Inl MustRebuildException else Inr ())"
  by (simp add: checkRebuildResourceDependencies_def rebuildResourceEntries_eq)

lemma rebuildConfigDependencies_eq:
  "rebuildConfigDependencies cds config =
     (if \<exists>d\<in>set cds. rebuildConfigMismatch config d
      then Inl MustRebuildException else Inr ())"
  by (induction cds) (auto simp: rebuildConfigMismatch_def)

lemma checkRebuildConfigDependencies_eq:
  "checkRebuildConfigDependencies entries config =
     (if \<exists>e\<in>set entries. \<exists>d\<in>set (configuration_dependencies e).
           rebuildConfigMismatch config d
      then Inl MustRebuildException else Inr ())"
  by (induction entries) (auto simp: rebuildConfigDependencies_eq)

lemma checkReinsertConfigDependencies_find:
  "checkReinsertConfigDependencies cds config =
     find (reinsertConfigMismatch config) cds"
  by (induction cds) (auto simp: reinsertConfigMismatch_def)

lemma checkReinsertResourceDependencies_find:
  "checkReinsertResourceDependencies env w rds =
     find (reinsertResourceMismatch env w) rds"
  by (induction rds) (auto simp: reinsertResourceMismatch_def)

lemma buildOrderLoop_eq:
  "i + length new_order = length old_order \<Longrightarrow>
   buildOrderLoop new_order old_order i =
     (if new_order = drop i old_order then Inr () else Inl MustRebuildException)"
proof (induction new_order old_order i rule: buildOrderLoop.induct)
  case (1 old_order i)
  then show ?case by simp
next
  case (2 new_descriptor rest old_order i)
  then have lt: "i < length old_order" by simp
  then have d: "drop i old_order = old_order ! i # drop (Suc i) old_order"
    by (simp add: Cons_nth_drop_Suc)
  from 2 lt show ?case by (auto simp: d)
qed

lemma checkBuildOrderChange_eq:
  "checkBuildOrderChange report config =
     (if build_order config = report_build_order report then Inr () else Inl MustRebuildException)"
proof (cases "length (build_order config) = length (report_build_order report)")
  case True
  then show ?thesis
    using buildOrderLoop_eq [of 0 "build_order config" "report_build_order report"]
    by (simp add: checkBuildOrderChange_def)
next
  case False
  then show ?thesis by (auto simp: checkBuildOrderChange_def)
qed

lemma collectLevelNumbers_eq:
  "collectLevelNumbers env w entries acc =
     (if \<exists>e\<in>set entries. extension env e = ''.mwl'' \<and> getInternalLevelNumber env e w = None
      then Inl InsertionException
      else Inr (acc \<union> {l. \<exists>e\<in>set entries. extension env e = ''.mwl''
                          \<and> getInternalLevelNumber env e w = Some l}))"
proof (induction entries arbitrary: acc)
  case Nil
  then show ?case by simp
next
  case (Cons e entries)
  show ?case
  proof (cases "extension env e = ''.mwl''")
    case False
    then show ?thesis by (simp add: Cons.IH)
  next
    case True
    show ?thesis
    proof (cases "getInternalLevelNumber env e w")
      case None
      with True show ?thesis by simp
    next
      case (Some l)
      with True show ?thesis by (auto simp: Cons.IH)
    qed
  qed
qed


subsection \<open>Rules for the assertions\<close>

lemma frame_refl: "frame A f s s"
  by (simp add: frame_def)

lemma frame_trans: "frame A f s s' \<Longrightarrow> frame A f s' s'' \<Longrightarrow> frame A f s s''"
  by (auto simp: frame_def)

lemma preserves_return_ok: "preserves P (frame A f) (return_ok a)"
  by (simp add: preserves_def return_ok_def frame_refl)

lemma preserves_throw: "preserves P (frame A f) (throw e)"
  by (simp add: preserves_def throw_def frame_refl)

lemma preserves_check: "preserves P (frame A f) (check c)"
  by (simp add: preserves_def check_def frame_refl)

lemma preserves_get: "preserves P (frame A f) (get g)"
  by (simp add: preserves_def get_def frame_refl)

lemma preserves_bind:
  assumes "preserves P (frame A f) m" and "\<And>a. preserves P (frame A f) (k a)"
  shows "preserves P (frame A f) (bind m k)"
  unfolding preserves_def
proof (intro allI impI)
  fix s
  assume p: "P s"
  obtain r s1 where m: "m s = (r, s1)" by (cases "m s")
  from assms(1) p m have r1: "frame A f s s1" and p1: "P s1"
    by (auto simp: preserves_def)
  show "frame A f s (snd (bind m k s)) \<and> P (snd (bind m k s))"
  proof (cases r)
    case (Inl e)
    with m r1 p1 show ?thesis by (simp add: bind_def)
  next
    case (Inr a)
    from assms(2) [of a] p1 have "frame A f s1 (snd (k a s1))" and "P (snd (k a s1))"
      by (auto simp: preserves_def)
    with m Inr r1 show ?thesis by (auto simp: bind_def intro: frame_trans)
  qed
qed

lemma preserves_next_do:
  assumes "preserves P (frame A f) m" and "preserves P (frame A f) m'"
  shows "preserves P (frame A f) (next_do m m')"
  unfolding next_do_def using assms by (intro preserves_bind)

lemma preserves_call:
  assumes "A eff" and "local_only f" and "local_only P"
  shows "preserves P (frame A f) (call env eff)"
  using assms
  by (auto simp: preserves_def call_def frame_def local_only_def split: prod.splits option.splits)

lemma preserves_modify:
  assumes "\<And>s. P s \<Longrightarrow> f (g s) = f s \<and> trace (g s) = trace s \<and> P (g s)"
  shows "preserves P (frame A f) (modify g)"
  using assms by (auto simp: preserves_def modify_def frame_def)

lemma preserves_logMessage:
  assumes "A (Log m)" and "local_only f" and "local_only P"
  shows "preserves P (frame A f) (logMessage m)"
  using assms
  by (auto simp: preserves_def logMessage_def modify_def frame_def local_only_def)

lemma preserves_if:
  assumes "b \<Longrightarrow> preserves P R m" and "\<not> b \<Longrightarrow> preserves P R m'"
  shows "preserves P R (if b then m else m')"
  using assms by simp

lemma preserves_case_prod:
  assumes "\<And>a b. preserves P R (k a b)"
  shows "preserves P R (case p of (a, b) \<Rightarrow> k a b)"
  using assms by (cases p) simp

lemma preserves_case_option:
  assumes "preserves P R m" and "\<And>a. preserves P R (k a)"
  shows "preserves P R (case x of None \<Rightarrow> m | Some a \<Rightarrow> k a)"
  using assms by (cases x) simp_all

lemma preserves_let:
  assumes "\<And>x. preserves P R (k x)"
  shows "preserves P R (let x = v in k x)"
  using assms by simp

lemmas preserves_rules =
  preserves_return_ok preserves_throw preserves_check preserves_get preserves_bind
  preserves_next_do preserves_if preserves_case_prod preserves_case_option

subsection \<open>The validator reads address sets only\<close>

text \<open>
  Claim C9. \<open>hijacksGoneBad\<close> depends only on the sets of byte addresses its two
  arguments cover: equal address sets give equal results; so the result is invariant
  under reordering of the pairs, under splitting a range \<open>(address, n + m)\<close> into
  \<open>(address, n)\<close> and \<open>(address + n, m)\<close> (or merging them back; the merged length
  \<open>n + m\<close> must be a \<open>size_t\<close>), in either argument; a pair of length 0 covers no
  address and may be dropped; and when \<open>old_hijacks\<close> covers no address (the empty list,
  or all lengths 0) the result is \<open>false\<close> for every \<open>new_hijacks\<close>.
\<close>

theorem hijacksGoneBad_address_sets_only:
  "(addressSet old_hijacks = addressSet old_hijacks' \<longrightarrow>
    addressSet new_hijacks = addressSet new_hijacks' \<longrightarrow>
      hijacksGoneBad old_hijacks new_hijacks = hijacksGoneBad old_hijacks' new_hijacks')
   \<and> (mset old_hijacks = mset old_hijacks' \<longrightarrow> mset new_hijacks = mset new_hijacks' \<longrightarrow>
      hijacksGoneBad old_hijacks new_hijacks = hijacksGoneBad old_hijacks' new_hijacks')
   \<and> (unat n + unat m < 2 ^ 64 \<longrightarrow>
        hijacksGoneBad (xs @ (address, n + m) # ys) new_hijacks =
          hijacksGoneBad (xs @ (address, n) # (address + n, m) # ys) new_hijacks
      \<and> hijacksGoneBad old_hijacks (xs @ (address, n + m) # ys) =
          hijacksGoneBad old_hijacks (xs @ (address, n) # (address + n, m) # ys))
   \<and> rangeAddresses (address, 0) = {}
   \<and> hijacksGoneBad (xs @ (address, 0) # ys) new_hijacks = hijacksGoneBad (xs @ ys) new_hijacks
   \<and> hijacksGoneBad old_hijacks (xs @ (address, 0) # ys) = hijacksGoneBad old_hijacks (xs @ ys)
   \<and> \<not> hijacksGoneBad [] new_hijacks
   \<and> ((\<forall>h\<in>set old_hijacks. snd h = 0) \<longrightarrow> \<not> hijacksGoneBad old_hijacks new_hijacks)"
proof -
  have split: "addressSet (xs @ (address, n + m) # ys) =
      addressSet (xs @ (address, n) # (address + n, m) # ys)" if "unat n + unat m < 2 ^ 64"
    using that by (simp add: addressSet_append addressSet_Cons rangeAddresses_split Un_assoc)
  have zero: "addressSet (xs @ (address, 0) # ys) = addressSet (xs @ ys)"
    by (simp add: addressSet_append addressSet_Cons rangeAddresses_zero)
  have c1: "addressSet old_hijacks = addressSet old_hijacks' \<longrightarrow>
    addressSet new_hijacks = addressSet new_hijacks' \<longrightarrow>
      hijacksGoneBad old_hijacks new_hijacks = hijacksGoneBad old_hijacks' new_hijacks'"
    by (simp add: hijacksGoneBad_subset)
  have c2: "mset old_hijacks = mset old_hijacks' \<longrightarrow> mset new_hijacks = mset new_hijacks' \<longrightarrow>
      hijacksGoneBad old_hijacks new_hijacks = hijacksGoneBad old_hijacks' new_hijacks'"
  proof (intro impI)
    assume a: "mset old_hijacks = mset old_hijacks'" and b: "mset new_hijacks = mset new_hijacks'"
    show "hijacksGoneBad old_hijacks new_hijacks = hijacksGoneBad old_hijacks' new_hijacks'"
      unfolding hijacksGoneBad_subset addressSet_mset [OF a] addressSet_mset [OF b] ..
  qed
  have c3: "unat n + unat m < 2 ^ 64 \<longrightarrow>
        hijacksGoneBad (xs @ (address, n + m) # ys) new_hijacks =
          hijacksGoneBad (xs @ (address, n) # (address + n, m) # ys) new_hijacks
      \<and> hijacksGoneBad old_hijacks (xs @ (address, n + m) # ys) =
          hijacksGoneBad old_hijacks (xs @ (address, n) # (address + n, m) # ys)"
  proof (intro impI)
    assume a: "unat n + unat m < 2 ^ 64"
    show "hijacksGoneBad (xs @ (address, n + m) # ys) new_hijacks =
          hijacksGoneBad (xs @ (address, n) # (address + n, m) # ys) new_hijacks
      \<and> hijacksGoneBad old_hijacks (xs @ (address, n + m) # ys) =
          hijacksGoneBad old_hijacks (xs @ (address, n) # (address + n, m) # ys)"
      unfolding hijacksGoneBad_subset split [OF a] by (rule conjI) (rule refl)+
  qed
  have c4: "rangeAddresses (address, 0) = {}"
    by (rule rangeAddresses_zero)
  have c5: "hijacksGoneBad (xs @ (address, 0) # ys) new_hijacks = hijacksGoneBad (xs @ ys) new_hijacks"
    unfolding hijacksGoneBad_subset zero ..
  have c6: "hijacksGoneBad old_hijacks (xs @ (address, 0) # ys) = hijacksGoneBad old_hijacks (xs @ ys)"
    unfolding hijacksGoneBad_subset zero ..
  have c7: "\<not> hijacksGoneBad [] new_hijacks"
    by (simp add: hijacksGoneBad_subset addressSet_Nil)
  have c8: "(\<forall>h\<in>set old_hijacks. snd h = 0) \<longrightarrow> \<not> hijacksGoneBad old_hijacks new_hijacks"
  proof (intro impI)
    assume "\<forall>h\<in>set old_hijacks. snd h = 0"
    then have "addressSet old_hijacks = {}"
      by (simp only: addressSet_empty_iff)
    then show "\<not> hijacksGoneBad old_hijacks new_hijacks"
      by (simp add: hijacksGoneBad_subset)
  qed
  from c1 c2 c3 c4 c5 c6 c7 c8 show ?thesis
    by (intro conjI)
qed

theorem hijacksGoneBad_address_sets_only_witness:
  "hijacksGoneBad [(0x108000, 16), (0x108100, 4)] [(0x108100, 4), (0x108000, 16)] =
     hijacksGoneBad [(0x108100, 4), (0x108000, 16)] [(0x108000, 16), (0x108100, 4)]
   \<and> hijacksGoneBad ([] @ (0x108000, 16 + 4) # []) [(0x108000, 20)] =
       hijacksGoneBad ([] @ (0x108000, 16) # (0x108000 + 16, 4) # []) [(0x108000, 20)]
   \<and> \<not> hijacksGoneBad [(0x108000, 0), (7, 0)] [(1, 1)]"
proof -
  note t = hijacksGoneBad_address_sets_only
    [of "[(0x108000, 16), (0x108100, 4)]" "[(0x108100, 4), (0x108000, 16)]"
        "[(0x108100, 4), (0x108000, 16)]" "[(0x108000, 16), (0x108100, 4)]"
        16 4 "[]" "0x108000" "[]"]
  note u = hijacksGoneBad_address_sets_only
    [of "[(0x108000, 0), (7, 0)]" "[(0x108000, 0), (7, 0)]" "[(1, 1)]" "[(1, 1)]"
        16 4 "[]" "0x108000" "[]"]
  have p1: "mset [(0x108000, 16), (0x108100, 4)] = mset [(0x108100, 4), (0x108000, 16 :: size_t) :: hijack]"
    by simp
  have p2: "mset [(0x108100, 4), (0x108000, 16)] = mset [(0x108000, 16), (0x108100, 4 :: size_t) :: hijack]"
    by simp
  have p3: "unat (16 :: size_t) + unat (4 :: size_t) < 2 ^ 64"
    by simp
  have p4: "\<forall>h\<in>set [(0x108000, 0), (7, 0 :: size_t) :: hijack]. snd h = 0"
    by simp
  have a: "hijacksGoneBad [(0x108000, 16), (0x108100, 4)] [(0x108100, 4), (0x108000, 16)] =
     hijacksGoneBad [(0x108100, 4), (0x108000, 16)] [(0x108000, 16), (0x108100, 4)]"
    using t [THEN conjunct2, THEN conjunct1, rule_format, OF p1 p2] .
  have b: "hijacksGoneBad ([] @ (0x108000, 16 + 4) # []) [(0x108000, 20)] =
       hijacksGoneBad ([] @ (0x108000, 16) # (0x108000 + 16, 4) # []) [(0x108000, 20)]"
    using hijacksGoneBad_address_sets_only
      [of "[]" "[]" "[(0x108000, 20)]" "[(0x108000, 20)]" 16 4 "[]" "0x108000" "[]",
       THEN conjunct2, THEN conjunct2, THEN conjunct1, rule_format, OF p3, THEN conjunct1] .
  have c: "\<not> hijacksGoneBad [(0x108000, 0), (7, 0)] [(1, 1)]"
    using u [THEN conjunct2, THEN conjunct2, THEN conjunct2, THEN conjunct2, THEN conjunct2,
       THEN conjunct2, THEN conjunct2, THEN mp, OF p4] .
  from a b c show ?thesis by blast
qed

subsection \<open>Lemmas on the loop body\<close>

lemma processEntry_rebuild_check_fails:
  assumes "project_root config = Some root"
    and "checkRebuildResourceDependencies env (world s) (dependencies s) i = Inl e"
  shows "processEntry env config report temporary_rom_path i s = (Inl e, s)"
  using assms by (simp add: processEntry_def bind_def next_do_def check_def getOrThrow_def)

lemma find_None_Bex: "find P xs = None \<longleftrightarrow> \<not> (\<exists>x\<in>set xs. P x)"
  by (auto simp: find_None_iff)

lemma find_Some_Bex: "find P xs = Some x \<Longrightarrow> \<exists>x\<in>set xs. P x"
  by (auto simp: find_Some_iff)

lemma classify_eq:
  "classify env config entry s =
     (case find (reinsertConfigMismatch config) (configuration_dependencies entry) of
        Some c \<Rightarrow>
          (Inr True, s\<lparr>trace := trace s @
             [Log (MustBeReinsertedDueToConfig (descriptor entry) (config_keys c))]\<rparr>)
      | None \<Rightarrow>
          (case find (reinsertResourceMismatch env (world s)) (resource_dependencies entry) of
             Some r \<Rightarrow>
               (Inr True, s\<lparr>trace := trace s @
                  [Log (MustBeReinsertedDueToResource (descriptor entry) (dependent_path r))]\<rparr>)
           | None \<Rightarrow> (Inr False, s)))"
  by (simp add: classify_def checkReinsertConfigDependencies_find
      checkReinsertResourceDependencies_find bind_def next_do_def get_def logMessage_def
      modify_def return_ok_def split: option.splits)

lemma processEntry_classified:
  assumes "project_root config = Some root"
    and "checkRebuildResourceDependencies env (world s) (dependencies s) i = Inr ()"
  shows "processEntry env config report temporary_rom_path i s =
     bind (classify env config (dependencies s ! i)) (\<lambda>must_reinsert.
       if must_reinsert
       then reinsert env config temporary_rom_path root i (descriptor (dependencies s ! i))
       else keep env report root (descriptor (dependencies s ! i))) s"
  using assms
  by (simp add: processEntry_def bind_def next_do_def check_def get_def getOrThrow_def)

lemma processEntry_check_eq:
  assumes root: "project_root config = Some root"
  shows "processEntry env config report temporary_rom_path i s =
     (if \<exists>e\<in>set (drop i (dependencies s)). \<exists>d\<in>set (resource_dependencies e).
           rebuildResourceMismatch env (world s) d
      then (Inl MustRebuildException, s)
      else bind (classify env config (dependencies s ! i)) (\<lambda>must_reinsert.
             if must_reinsert
             then reinsert env config temporary_rom_path root i (descriptor (dependencies s ! i))
             else keep env report root (descriptor (dependencies s ! i))) s)"
proof (cases "\<exists>e\<in>set (drop i (dependencies s)). \<exists>d\<in>set (resource_dependencies e).
           rebuildResourceMismatch env (world s) d")
  case True
  then have "checkRebuildResourceDependencies env (world s) (dependencies s) i
      = Inl MustRebuildException"
    by (simp only: checkRebuildResourceDependencies_eq if_True)
  from processEntry_rebuild_check_fails [OF root this] True show ?thesis
    by (simp only: if_True)
next
  case False
  then have "checkRebuildResourceDependencies env (world s) (dependencies s) i = Inr ()"
    by (simp only: checkRebuildResourceDependencies_eq if_False)
  from processEntry_classified [OF root this] False show ?thesis
    by (simp only: if_False)
qed

lemma processEntry_up_to_date:
  assumes root: "project_root config = Some root"
    and rebuild: "\<not> (\<exists>e\<in>set (drop i (dependencies s)). \<exists>d\<in>set (resource_dependencies e).
           rebuildResourceMismatch env (world s) d)"
    and c: "\<not> (\<exists>c\<in>set (configuration_dependencies (dependencies s ! i)).
           reinsertConfigMismatch config c)"
    and r: "\<not> (\<exists>r\<in>set (resource_dependencies (dependencies s ! i)).
           reinsertResourceMismatch env (world s) r)"
    and m: "symbol (descriptor (dependencies s ! i)) \<noteq> MODULE"
  shows "processEntry env config report temporary_rom_path i s =
     (Inr (), s\<lparr>trace := trace s @ [Log (AlreadyUpToDate (descriptor (dependencies s ! i)))]\<rparr>)"
proof -
  from c have c': "find (reinsertConfigMismatch config)
      (configuration_dependencies (dependencies s ! i)) = None"
    by (simp add: find_None_Bex)
  from r have r': "find (reinsertResourceMismatch env (world s))
      (resource_dependencies (dependencies s ! i)) = None"
    by (simp add: find_None_Bex)
  have k: "classify env config (dependencies s ! i) s = (Inr False, s)"
    by (simp add: classify_eq c' r')
  from m have "keep env report root (descriptor (dependencies s ! i)) s =
     (Inr (), s\<lparr>trace := trace s @ [Log (AlreadyUpToDate (descriptor (dependencies s ! i)))]\<rparr>)"
    by (simp add: keep_def next_do_def bind_def return_ok_def logMessage_def modify_def)
  with k rebuild show ?thesis
    by (simp add: processEntry_check_eq [OF root] bind_def)
qed

subsection \<open>The forward scan of the \<open>Rebuild\<close> resource dependencies\<close>

text \<open>
  Claim C3. At the entry index \<open>i\<close> the driver checks the resource dependencies of
  policy \<open>Rebuild\<close> of the entries from index \<open>i\<close> to the end of the list, and of no
  entry before \<open>i\<close>: the check raises \<open>MustRebuild\<close> iff one of them mismatches, and
  passes otherwise; a dependency mismatches iff its current timestamp (\<open>None\<close> when the
  file is absent, else the last write time) differs from the recorded one; entries put in
  front of the list, with the index moved past them, do not change the result. The loop
  body at the index \<open>i\<close> does exactly this: when a dependency of an entry from \<open>i\<close> on
  mismatches it raises \<open>MustRebuild\<close> with the state as it was, before the entry is
  classified; when none does, whatever the entries before \<open>i\<close> hold, it goes on to
  classify the entry at \<open>i\<close> in the same state, and to reinsert or keep it; so an entry
  that is up to date, and is not a module, is kept: the loop body returns, having logged
  that the entry is up to date.
\<close>

theorem rebuild_resource_scan_is_forward_only:
  "(checkRebuildResourceDependencies env w deps i = Inl MustRebuildException \<longleftrightarrow>
      (\<exists>e\<in>set (drop i deps). \<exists>d\<in>set (resource_dependencies e). rebuildResourceMismatch env w d))
   \<and> (checkRebuildResourceDependencies env w deps i = Inr () \<longleftrightarrow>
      \<not> (\<exists>e\<in>set (drop i deps). \<exists>d\<in>set (resource_dependencies e). rebuildResourceMismatch env w d))
   \<and> (rebuildResourceMismatch env w d \<longleftrightarrow>
        policy_r d = REBUILD \<and>
        (if fs_exists env (dependent_path d) w
         then Some (fs_last_write_time env (dependent_path d) w) else None) \<noteq> last_write_time d)
   \<and> checkRebuildResourceDependencies env w (before @ deps) (length before + i) =
       checkRebuildResourceDependencies env w deps i
   \<and> (project_root config = Some root \<longrightarrow>
        processEntry env config report temporary_rom_path i s =
          (if \<exists>e\<in>set (drop i (dependencies s)). \<exists>d\<in>set (resource_dependencies e).
                rebuildResourceMismatch env (world s) d
           then (Inl MustRebuildException, s)
           else bind (classify env config (dependencies s ! i)) (\<lambda>must_reinsert.
                  if must_reinsert
                  then reinsert env config temporary_rom_path root i
                         (descriptor (dependencies s ! i))
                  else keep env report root (descriptor (dependencies s ! i))) s))
   \<and> (project_root config = Some root \<longrightarrow>
        \<not> (\<exists>e\<in>set (drop i (dependencies s)). \<exists>d\<in>set (resource_dependencies e).
              rebuildResourceMismatch env (world s) d) \<longrightarrow>
        \<not> (\<exists>c\<in>set (configuration_dependencies (dependencies s ! i)).
              reinsertConfigMismatch config c) \<longrightarrow>
        \<not> (\<exists>r\<in>set (resource_dependencies (dependencies s ! i)).
              reinsertResourceMismatch env (world s) r) \<longrightarrow>
        symbol (descriptor (dependencies s ! i)) \<noteq> MODULE \<longrightarrow>
        processEntry env config report temporary_rom_path i s =
          (Inr (), s\<lparr>trace := trace s @
             [Log (AlreadyUpToDate (descriptor (dependencies s ! i)))]\<rparr>))"
proof -
  have a: "checkRebuildResourceDependencies env w deps i = Inl MustRebuildException \<longleftrightarrow>
      (\<exists>e\<in>set (drop i deps). \<exists>d\<in>set (resource_dependencies e). rebuildResourceMismatch env w d)"
    by (simp add: checkRebuildResourceDependencies_eq)
  have b: "checkRebuildResourceDependencies env w deps i = Inr () \<longleftrightarrow>
      \<not> (\<exists>e\<in>set (drop i deps). \<exists>d\<in>set (resource_dependencies e). rebuildResourceMismatch env w d)"
    by (simp add: checkRebuildResourceDependencies_eq)
  have c: "rebuildResourceMismatch env w d \<longleftrightarrow>
        policy_r d = REBUILD \<and>
        (if fs_exists env (dependent_path d) w
         then Some (fs_last_write_time env (dependent_path d) w) else None) \<noteq> last_write_time d"
    by (simp add: rebuildResourceMismatch_def new_timestamp_def)
  have d: "checkRebuildResourceDependencies env w (before @ deps) (length before + i) =
       checkRebuildResourceDependencies env w deps i"
    by (simp add: checkRebuildResourceDependencies_def)
  from a b c d processEntry_check_eq [of config root env report temporary_rom_path i s]
    processEntry_up_to_date [of config root i s env report temporary_rom_path]
  show ?thesis by (intro conjI impI)
qed

theorem rebuild_resource_scan_is_forward_only_witness:
  "checkRebuildResourceDependencies (scenario_env [] nothing_fails) (scenario_world 2000)
      [rebuild_entry, rebuild_entry] 1 = Inl MustRebuildException
   \<and> checkRebuildResourceDependencies (scenario_env [] nothing_fails) (scenario_world 2000)
      [rebuild_entry, graphics_entry] 1 = Inr ()
   \<and> processEntry (scenario_env [] nothing_fails) scenario_config scenario_report ''temp.smc'' 1
        (initial (scenario_world 2000) [rebuild_entry, rebuild_entry])
       = (Inl MustRebuildException, initial (scenario_world 2000) [rebuild_entry, rebuild_entry])
   \<and> processEntry (scenario_env [] nothing_fails) scenario_config scenario_report ''temp.smc'' 1
        (initial (scenario_world 2000) [rebuild_entry, graphics_entry])
       = (Inr (), (initial (scenario_world 2000) [rebuild_entry, graphics_entry])
            \<lparr>trace := [Log (AlreadyUpToDate (descriptor graphics_entry))]\<rparr>)"
proof -
  let ?env = "scenario_env [] nothing_fails"
  let ?w = "scenario_world 2000"
  let ?s = "initial ?w [rebuild_entry, rebuild_entry]"
  let ?s' = "initial ?w [rebuild_entry, graphics_entry]"
  have m: "rebuildResourceMismatch ?env ?w rebuild_dependency"
    by (simp add: rebuildResourceMismatch_def new_timestamp_def rebuild_dependency_def
        scenario_env_def scenario_world_def)
  have h1: "\<exists>e\<in>set (drop 1 [rebuild_entry, rebuild_entry]).
      \<exists>d\<in>set (resource_dependencies e). rebuildResourceMismatch ?env ?w d"
    using m by (simp add: rebuild_entry_def)
  have h2: "\<not> (\<exists>e\<in>set (drop 1 [rebuild_entry, graphics_entry]).
      \<exists>d\<in>set (resource_dependencies e). rebuildResourceMismatch ?env ?w d)"
    by (simp add: graphics_entry_def)
  have h3: "project_root scenario_config = Some ''project''"
    by (simp add: scenario_config_def)
  have h4: "\<exists>e\<in>set (drop 1 (dependencies ?s)). \<exists>d\<in>set (resource_dependencies e).
        rebuildResourceMismatch ?env (world ?s) d"
    using m by (simp add: rebuild_entry_def initial_def)
  have h5: "\<not> (\<exists>e\<in>set (drop 1 (dependencies ?s')). \<exists>d\<in>set (resource_dependencies e).
        rebuildResourceMismatch ?env (world ?s') d)"
    by (simp add: graphics_entry_def initial_def)
  have h6: "\<not> (\<exists>c\<in>set (configuration_dependencies (dependencies ?s' ! 1)).
        reinsertConfigMismatch scenario_config c)"
    by (simp add: graphics_entry_def initial_def)
  have h7: "\<not> (\<exists>r\<in>set (resource_dependencies (dependencies ?s' ! 1)).
        reinsertResourceMismatch ?env (world ?s') r)"
    by (simp add: graphics_entry_def initial_def)
  have h8: "symbol (descriptor (dependencies ?s' ! 1)) \<noteq> MODULE"
    by (simp add: graphics_entry_def initial_def)
  note t = rebuild_resource_scan_is_forward_only
  from t [where env = ?env and w = ?w and deps = "[rebuild_entry, rebuild_entry]" and i = 1,
      THEN conjunct1] h1
  have a: "checkRebuildResourceDependencies ?env ?w [rebuild_entry, rebuild_entry] 1
      = Inl MustRebuildException"
    by (rule iffD2)
  from t [where env = ?env and w = ?w and deps = "[rebuild_entry, graphics_entry]" and i = 1,
      THEN conjunct2, THEN conjunct1] h2
  have b: "checkRebuildResourceDependencies ?env ?w [rebuild_entry, graphics_entry] 1
      = Inr ()"
    by (rule iffD2)
  from t [where env = ?env and i = 1 and config = scenario_config and root = "''project''"
      and s = ?s and report = scenario_report and temporary_rom_path = "''temp.smc''",
      THEN conjunct2, THEN conjunct2, THEN conjunct2, THEN conjunct2, THEN conjunct1,
      THEN mp, OF h3] h4
  have c: "processEntry ?env scenario_config scenario_report ''temp.smc'' 1 ?s
       = (Inl MustRebuildException, ?s)"
    by (simp only: if_True)
  from t [where env = ?env and i = 1 and config = scenario_config and root = "''project''"
      and s = ?s' and report = scenario_report and temporary_rom_path = "''temp.smc''",
      THEN conjunct2, THEN conjunct2, THEN conjunct2, THEN conjunct2, THEN conjunct2,
      THEN mp, THEN mp, THEN mp, THEN mp, THEN mp, OF h3 h5 h6 h7 h8]
  have d: "processEntry ?env scenario_config scenario_report ''temp.smc'' 1 ?s'
       = (Inr (), ?s'\<lparr>trace := [Log (AlreadyUpToDate (descriptor graphics_entry))]\<rparr>)"
    by (simp add: initial_def)
  from a b c d show ?thesis by (intro conjI)
qed

subsection \<open>The ROM size check\<close>

text \<open>
  Claim C5 (the code departs from it). With \<open>rom_size\<close> not set in the configuration the
  check neither passes nor raises \<open>MustRebuild\<close>: whatever the report records, the right
  operand of \<open>||\<close> calls \<open>getOrThrow\<close>, whose exception leaves the check. With
  \<open>rom_size\<close> set the check passes iff the report records the same size.
\<close>

theorem checkRebuildRomSize_config_unset:
  "checkRebuildRomSize (report\<lparr>report_rom_size := recorded\<rparr>) (config\<lparr>rom_size := None\<rparr>)
     = Inl ConfigException
   \<and> checkRebuildRomSize (report\<lparr>report_rom_size := recorded\<rparr>) (config\<lparr>rom_size := Some configured\<rparr>)
     = (if recorded = Some configured then Inr () else Inl MustRebuildException)"
  by (simp add: checkRebuildRomSize_eq)

subsection \<open>The classification of an entry\<close>

text \<open>
  Claim C6. An entry is classified for reinsertion iff a configuration dependency of
  policy \<open>Reinsert\<close> mismatches, or none does and a resource dependency of policy
  \<open>Reinsert\<close> mismatches. The two walks return the first mismatching dependency of their
  list; the resource dependencies are walked only when no configuration dependency
  mismatches; the message names the key, or the path, of the dependency returned; and
  the loop body reinserts the entry iff it is classified so.
\<close>

theorem classification_first_mismatch:
  "checkReinsertConfigDependencies cds config = find (reinsertConfigMismatch config) cds
   \<and> checkReinsertResourceDependencies env w rds = find (reinsertResourceMismatch env w) rds
   \<and> (reinsertConfigMismatch config c \<longleftrightarrow>
        policy_c c = REINSERT \<and> value_c c \<noteq> getByKey config (config_keys c))
   \<and> (reinsertResourceMismatch env w r \<longleftrightarrow>
        policy_r r = REINSERT \<and> new_timestamp env w (dependent_path r) \<noteq> last_write_time r)
   \<and> fst (classify env config entry s) =
        Inr ((\<exists>d\<in>set (configuration_dependencies entry). reinsertConfigMismatch config d)
             \<or> (\<not> (\<exists>d\<in>set (configuration_dependencies entry). reinsertConfigMismatch config d)
                \<and> (\<exists>d\<in>set (resource_dependencies entry).
                      reinsertResourceMismatch env (world s) d)))
   \<and> snd (classify env config entry s) =
        (case find (reinsertConfigMismatch config) (configuration_dependencies entry) of
           Some c \<Rightarrow> s\<lparr>trace := trace s @
               [Log (MustBeReinsertedDueToConfig (descriptor entry) (config_keys c))]\<rparr>
         | None \<Rightarrow>
            (case find (reinsertResourceMismatch env (world s)) (resource_dependencies entry) of
               Some r \<Rightarrow> s\<lparr>trace := trace s @
                 [Log (MustBeReinsertedDueToResource (descriptor entry) (dependent_path r))]\<rparr>
             | None \<Rightarrow> s))
   \<and> (project_root config = Some root \<longrightarrow>
       checkRebuildResourceDependencies env (world s) (dependencies s) i = Inr () \<longrightarrow>
       processEntry env config report temporary_rom_path i s =
         bind (classify env config (dependencies s ! i)) (\<lambda>must_reinsert.
           if must_reinsert
           then reinsert env config temporary_rom_path root i (descriptor (dependencies s ! i))
           else keep env report root (descriptor (dependencies s ! i))) s)"
proof -
  let ?c = "find (reinsertConfigMismatch config) (configuration_dependencies entry)"
  let ?r = "find (reinsertResourceMismatch env (world s)) (resource_dependencies entry)"
  have f: "fst (classify env config entry s) =
        Inr ((\<exists>d\<in>set (configuration_dependencies entry). reinsertConfigMismatch config d)
             \<or> (\<not> (\<exists>d\<in>set (configuration_dependencies entry). reinsertConfigMismatch config d)
                \<and> (\<exists>d\<in>set (resource_dependencies entry).
                      reinsertResourceMismatch env (world s) d)))"
  proof (cases ?c)
    case None
    then have n: "\<not> (\<exists>d\<in>set (configuration_dependencies entry). reinsertConfigMismatch config d)"
      by (simp add: find_None_Bex)
    show ?thesis
    proof (cases ?r)
      case None
      then have "\<not> (\<exists>d\<in>set (resource_dependencies entry). reinsertResourceMismatch env (world s) d)"
        by (simp add: find_None_Bex)
      with n None \<open>?c = None\<close> show ?thesis by (auto simp: classify_eq)
    next
      case (Some r)
      then have "\<exists>d\<in>set (resource_dependencies entry). reinsertResourceMismatch env (world s) d"
        by (rule find_Some_Bex)
      with n Some \<open>?c = None\<close> show ?thesis by (auto simp: classify_eq)
    qed
  next
    case (Some c)
    then have "\<exists>d\<in>set (configuration_dependencies entry). reinsertConfigMismatch config d"
      by (rule find_Some_Bex)
    with Some show ?thesis by (auto simp: classify_eq)
  qed
  have g: "snd (classify env config entry s) =
        (case ?c of
           Some c \<Rightarrow> s\<lparr>trace := trace s @
               [Log (MustBeReinsertedDueToConfig (descriptor entry) (config_keys c))]\<rparr>
         | None \<Rightarrow>
            (case ?r of
               Some r \<Rightarrow> s\<lparr>trace := trace s @
                 [Log (MustBeReinsertedDueToResource (descriptor entry) (dependent_path r))]\<rparr>
             | None \<Rightarrow> s))"
    by (simp add: classify_eq split: option.splits)
  have h: "project_root config = Some root \<longrightarrow>
       checkRebuildResourceDependencies env (world s) (dependencies s) i = Inr () \<longrightarrow>
       processEntry env config report temporary_rom_path i s =
         bind (classify env config (dependencies s ! i)) (\<lambda>must_reinsert.
           if must_reinsert
           then reinsert env config temporary_rom_path root i (descriptor (dependencies s ! i))
           else keep env report root (descriptor (dependencies s ! i))) s"
    by (intro impI) (rule processEntry_classified)
  from f g h show ?thesis
    by (intro conjI checkReinsertConfigDependencies_find checkReinsertResourceDependencies_find
        reinsertConfigMismatch_def reinsertResourceMismatch_def)
qed

theorem classification_first_mismatch_witness:
  "fst (classify (scenario_env [] nothing_fails) scenario_config patch_entry
          (initial (scenario_world 2000) scenario_dependencies)) = Inr True
   \<and> fst (classify (scenario_env [] nothing_fails) scenario_config patch_entry
          (initial (scenario_world 1000) scenario_dependencies)) = Inr False
   \<and> trace (snd (classify (scenario_env [] nothing_fails) scenario_config patch_entry
          (initial (scenario_world 2000) scenario_dependencies)))
       = [Log (MustBeReinsertedDueToResource \<lparr>symbol = PATCH, name = Some ''foo.asm''\<rparr> ''foo.asm'')]"
proof -
  let ?env = "scenario_env [] nothing_fails"
  let ?e = patch_entry
  let ?d = patch_dependency
  have e: "configuration_dependencies ?e = []" "resource_dependencies ?e = [?d]"
    "descriptor ?e = \<lparr>symbol = PATCH, name = Some ''foo.asm''\<rparr>"
    by (simp_all add: patch_entry_def)
  have m: "reinsertResourceMismatch ?env (scenario_world 2000) ?d"
    by (simp add: reinsertResourceMismatch_def new_timestamp_def scenario_env_def scenario_world_def
        patch_dependency_def)
  have n: "\<not> reinsertResourceMismatch ?env (scenario_world 1000) ?d"
    by (simp add: reinsertResourceMismatch_def new_timestamp_def scenario_env_def scenario_world_def
        patch_dependency_def)
  note t = classification_first_mismatch [where env = ?env and entry = ?e
      and config = scenario_config]
  have a: "fst (classify ?env scenario_config ?e (initial (scenario_world 2000) scenario_dependencies))
      = Inr True"
    using t [where s = "initial (scenario_world 2000) scenario_dependencies",
        THEN conjunct2, THEN conjunct2, THEN conjunct2, THEN conjunct2, THEN conjunct1] m
    by (simp add: e initial_def patch_dependency_def)
  have b: "fst (classify ?env scenario_config ?e (initial (scenario_world 1000) scenario_dependencies))
      = Inr False"
    using t [where s = "initial (scenario_world 1000) scenario_dependencies",
        THEN conjunct2, THEN conjunct2, THEN conjunct2, THEN conjunct2, THEN conjunct1] n
    by (simp add: e initial_def patch_dependency_def)
  have c: "trace (snd (classify ?env scenario_config ?e
          (initial (scenario_world 2000) scenario_dependencies)))
       = [Log (MustBeReinsertedDueToResource \<lparr>symbol = PATCH, name = Some ''foo.asm''\<rparr> ''foo.asm'')]"
    using t [where s = "initial (scenario_world 2000) scenario_dependencies",
        THEN conjunct2, THEN conjunct2, THEN conjunct2, THEN conjunct2, THEN conjunct2,
        THEN conjunct1] m
    by (simp add: e initial_def patch_dependency_def)
  from a b c show ?thesis by (intro conjI)
qed

subsection \<open>The level check\<close>

lemma collectLevelNumbers_folder:
  "collectLevelNumbers env w (fs_directory_iterator env levels_path w) {} =
     (if undeterminedLevel env w levels_path then Inl InsertionException
      else Inr (currentLevelNumbers env w levels_path))"
  by (simp add: collectLevelNumbers_eq undeterminedLevel_def currentLevelNumbers_def)

lemma checkProblematicLevelChanges_eq:
  "checkProblematicLevelChanges env w levels_path old_level_numbers =
     (if \<not> fs_exists env levels_path w then Inl InsertionException
      else if undeterminedLevel env w levels_path then Inl InsertionException
      else if \<exists>l\<in>set old_level_numbers. l \<notin> currentLevelNumbers env w levels_path
        then Inl MustRebuildException
      else Inr ())"
proof -
  have "filter (\<lambda>l. l \<notin> currentLevelNumbers env w levels_path) (remdups old_level_numbers) = []
      \<longleftrightarrow> \<not> (\<exists>l\<in>set old_level_numbers. l \<notin> currentLevelNumbers env w levels_path)"
    by (auto simp: filter_empty_conv)
  then show ?thesis
    by (simp add: checkProblematicLevelChanges_def collectLevelNumbers_folder Let_def)
qed

text \<open>
  Claim C7. With a levels folder configured the level check raises \<open>InsertionException\<close>
  if the folder does not exist or if the level number of a \<open>.mwl\<close> file cannot be
  determined; otherwise it raises \<open>MustRebuild\<close> iff a level number of
  \<open>inserted_levels\<close> has no current \<open>.mwl\<close> file, and passes iff all of them have one, so a
  level number on disk that is not in \<open>inserted_levels\<close> never makes the check fail. The
  check runs only when \<open>levels\<close> is set.
\<close>

theorem level_check_outcomes:
  "(\<not> fs_exists env levels_path w \<longrightarrow>
      checkProblematicLevelChanges env w levels_path old_level_numbers = Inl InsertionException)
   \<and> (undeterminedLevel env w levels_path \<longrightarrow>
      checkProblematicLevelChanges env w levels_path old_level_numbers = Inl InsertionException)
   \<and> (checkProblematicLevelChanges env w levels_path old_level_numbers = Inl MustRebuildException
        \<longleftrightarrow> fs_exists env levels_path w \<and> \<not> undeterminedLevel env w levels_path
            \<and> (\<exists>l\<in>set old_level_numbers. l \<notin> currentLevelNumbers env w levels_path))
   \<and> (checkProblematicLevelChanges env w levels_path old_level_numbers = Inr ()
        \<longleftrightarrow> fs_exists env levels_path w \<and> \<not> undeterminedLevel env w levels_path
            \<and> set old_level_numbers \<subseteq> currentLevelNumbers env w levels_path)
   \<and> (levels config = Some levels_path \<longrightarrow>
        checkLevels env report config w =
          checkProblematicLevelChanges env w levels_path (inserted_levels report))
   \<and> (levels config = None \<longrightarrow> checkLevels env report config w = Inr ())"
  by (auto simp: checkProblematicLevelChanges_eq checkLevels_def)

theorem level_check_outcomes_witness:
  "checkProblematicLevelChanges (scenario_env [] nothing_fails) (scenario_world 1000)
      ''absent'' [261] = Inl InsertionException
   \<and> checkProblematicLevelChanges
        ((scenario_env [] nothing_fails)\<lparr>getInternalLevelNumber := (\<lambda>p w. None)\<rparr>)
        (scenario_world 1000) ''levels'' [261] = Inl InsertionException
   \<and> checkLevels (scenario_env [] nothing_fails) scenario_report scenario_config
        (scenario_world 1000) =
      checkProblematicLevelChanges (scenario_env [] nothing_fails) (scenario_world 1000)
        ''levels'' (inserted_levels scenario_report)
   \<and> checkLevels (scenario_env [] nothing_fails) scenario_report
        (scenario_config\<lparr>levels := None\<rparr>) (scenario_world 1000) = Inr ()"
proof -
  let ?env = "scenario_env [] nothing_fails"
  let ?env' = "?env\<lparr>getInternalLevelNumber := (\<lambda>p w. None)\<rparr>"
  let ?w = "scenario_world 1000"
  have h1: "\<not> fs_exists ?env ''absent'' ?w"
    by (simp add: scenario_env_def scenario_world_def)
  have h2: "undeterminedLevel ?env' ?w ''levels''"
    by (simp add: undeterminedLevel_def scenario_env_def)
  have h3: "levels scenario_config = Some ''levels''"
    by (simp add: scenario_config_def)
  have h4: "levels (scenario_config\<lparr>levels := None\<rparr>) = None"
    by simp
  note t = level_check_outcomes
  from t [where env = ?env and levels_path = "''absent''" and w = ?w
      and old_level_numbers = "[261]", THEN conjunct1, THEN mp, OF h1]
  have a: "checkProblematicLevelChanges ?env ?w ''absent'' [261] = Inl InsertionException" .
  from t [where env = ?env' and levels_path = "''levels''" and w = ?w
      and old_level_numbers = "[261]", THEN conjunct2, THEN conjunct1, THEN mp, OF h2]
  have b: "checkProblematicLevelChanges ?env' ?w ''levels'' [261] = Inl InsertionException" .
  from t [where env = ?env and levels_path = "''levels''" and w = ?w
      and config = scenario_config and report = scenario_report,
      THEN conjunct2, THEN conjunct2, THEN conjunct2, THEN conjunct2, THEN conjunct1,
      THEN mp, OF h3]
  have c: "checkLevels ?env scenario_report scenario_config ?w =
      checkProblematicLevelChanges ?env ?w ''levels'' (inserted_levels scenario_report)" .
  from t [where env = ?env and w = ?w and config = "scenario_config\<lparr>levels := None\<rparr>"
      and report = scenario_report,
      THEN conjunct2, THEN conjunct2, THEN conjunct2, THEN conjunct2, THEN conjunct2,
      THEN mp, OF h4]
  have d: "checkLevels ?env scenario_report (scenario_config\<lparr>levels := None\<rparr>) ?w = Inr ()" .
  from a b c d show ?thesis by (intro conjI)
qed

subsection \<open>Module cleanup\<close>

lemma header_size_mod:
  "unat ((of_nat n :: 32 word) AND 0x7FFF) = n mod 0x8000"
proof -
  have m: "(0x7FFF :: 32 word) = mask 15" by (simp add: mask_eq_exp_minus_1)
  have "unat ((of_nat n :: 32 word) AND mask 15) = take_bit 15 (unat (of_nat n :: 32 word))"
    by (simp add: unsigned_take_bit_eq flip: take_bit_eq_mask)
  also have "\<dots> = take_bit 15 (take_bit 32 n)"
    by (simp add: unsigned_of_nat)
  also have "\<dots> = take_bit 15 n"
    by simp
  also have "\<dots> = n mod 0x8000"
    by (simp add: take_bit_eq_mod)
  finally show ?thesis by (simp only: m)
qed

lemma hexDigit_cases:
  assumes "d < 16"
  shows "hexDigit d \<in> set ''0123456789ABCDEF'' \<and> hexDigitValue (hexDigit d) = d"
proof -
  have "\<forall>d\<in>set [0..<16]. hexDigit d \<in> set ''0123456789ABCDEF'' \<and> hexDigitValue (hexDigit d) = d"
    by code_simp
  with assms show ?thesis by simp
qed

lemma hexDigits_set: "set (hexDigits n) \<subseteq> set ''0123456789ABCDEF''"
proof (induction n rule: hexDigits.induct)
  case (1 n)
  show ?case
  proof (cases "n < 16")
    case True
    then show ?thesis using hexDigit_cases [of n] by (subst hexDigits.simps) simp
  next
    case False
    have "n mod 16 < 16" by simp
    with 1 False hexDigit_cases [of "n mod 16"] show ?thesis
      by (subst hexDigits.simps) simp
  qed
qed

lemma hexValue_append: "hexValue (xs @ [c]) = 16 * hexValue xs + hexDigitValue c"
  by (simp add: hexValue_def)

lemma hexValue_hexDigits: "hexValue (hexDigits n) = n"
proof (induction n rule: hexDigits.induct)
  case (1 n)
  show ?case
  proof (cases "n < 16")
    case True
    then show ?thesis using hexDigit_cases [of n]
      by (subst hexDigits.simps) (simp add: hexValue_def)
  next
    case False
    have "n mod 16 < 16" by simp
    with 1 False hexDigit_cases [of "n mod 16"] show ?thesis
      by (subst hexDigits.simps) (simp add: hexValue_append)
  qed
qed

lemma hexDigits_length_le: "n < 16 ^ k \<Longrightarrow> 0 < k \<Longrightarrow> length (hexDigits n) \<le> k"
proof (induction n arbitrary: k rule: hexDigits.induct)
  case (1 n)
  show ?case
  proof (cases "n < 16")
    case True
    with 1 show ?thesis by (subst hexDigits.simps) simp
  next
    case False
    with 1(2) have k: "1 < k" by (cases k; cases "k - 1") auto
    then obtain k' where k': "k = Suc k'" "0 < k'" by (cases k) auto
    from 1(2) k' have "n div 16 < 16 ^ k'"
      by (simp add: less_mult_imp_div_less mult.commute)
    with 1(1) [OF False this] k' have "length (hexDigits (n div 16)) \<le> k'" by simp
    with False k' show ?thesis by (subst hexDigits.simps) simp
  qed
qed

lemma hexDigits_length_ge: "16 ^ k \<le> n \<Longrightarrow> k < length (hexDigits n)"
proof (induction n arbitrary: k rule: hexDigits.induct)
  case (1 n)
  show ?case
  proof (cases "n < 16")
    case True
    with 1(2) have "(16::nat) ^ k < 16 ^ 1" by simp
    then have "k < 1" by (rule power_less_imp_less_exp [rotated]) simp
    then have "k = 0" by simp
    with True show ?thesis by (subst hexDigits.simps) simp
  next
    case False
    show ?thesis
    proof (cases k)
      case 0
      then show ?thesis using False by (subst hexDigits.simps) simp
    next
      case (Suc k')
      with 1(2) have "16 ^ k' \<le> n div 16"
        by (simp add: less_eq_div_iff_mult_less_eq mult.commute)
      with 1(1) [OF False] have "k' < length (hexDigits (n div 16))" by simp
      with False Suc show ?thesis by (subst hexDigits.simps) simp
    qed
  qed
qed

lemma hexValue_zeros: "hexValue (replicate k CHR ''0'' @ s) = hexValue s"
  by (induction k) (simp_all add: hexValue_def hexDigitValue_def isdigit_def)

lemma format_06X_address:
  assumes "0 \<le> a" and "a < 2 ^ 24"
  shows "length (format_06X a) = 6" and "set (format_06X a) \<subseteq> set ''0123456789ABCDEF''"
    and "int (hexValue (format_06X a)) = a"
proof -
  from assms have "nat \<bar>a\<bar> < 16 ^ 6" by simp
  then have l: "length (hexDigits (nat \<bar>a\<bar>)) \<le> 6"
    by (rule hexDigits_length_le) simp
  from assms l show "length (format_06X a) = 6"
    by (simp add: format_06X_def Let_def)
  from assms hexDigits_set [of "nat \<bar>a\<bar>"]
  show "set (format_06X a) \<subseteq> set ''0123456789ABCDEF''"
    by (auto simp: format_06X_def Let_def)
  from assms show "int (hexValue (format_06X a)) = a"
    by (simp add: format_06X_def Let_def hexValue_zeros hexValue_hexDigits)
qed

lemma format_06X_wide:
  assumes "2 ^ 24 \<le> a"
  shows "6 < length (format_06X a)"
proof -
  from assms have "16 ^ 6 \<le> nat \<bar>a\<bar>" by simp
  then have "6 < length (hexDigits (nat \<bar>a\<bar>))" by (rule hexDigits_length_ge)
  with assms show ?thesis by (simp add: format_06X_def Let_def)
qed

lemma format_06X_min_width: "6 \<le> length (format_06X a)"
  by (auto simp: format_06X_def Let_def)

lemma stoi_16777216: "stoi ''16777216'' = Inr 16777216"
  by (simp add: stoi_def isspace_def isdigit_def digitValue_def Let_def)

lemma format_16777216: "format_06X 16777216 = ''1000000''"
  by (simp add: format_06X_def hexDigits.simps hexDigit_def Let_def)


lemma autocleanSource_parsed:
  "map stoi lines = map Inr addresses \<Longrightarrow>
   autocleanSource lines written =
     (written @ concat (map autocleanDirective addresses), None)"
proof (induction lines arbitrary: addresses written)
  case Nil
  then show ?case by simp
next
  case (Cons line lines)
  then obtain a rest where a: "addresses = a # rest" "stoi line = Inr a"
    "map stoi lines = map Inr rest"
    by (cases addresses) auto
  with Cons.IH [of rest] show ?case
    by (simp add: autocleanDirective_def)
qed

lemma autocleanSource_failure:
  "autocleanSource lines written = (source, Some e) \<Longrightarrow> \<exists>line\<in>set lines. stoi line = Inl e"
  by (induction lines arbitrary: written) (auto split: sum.splits)

lemma header_size_word: "(of_nat n :: 32 word) AND 0x7FFF = of_nat (n mod 0x8000)"
proof -
  have "unat ((of_nat n :: 32 word) AND 0x7FFF) = unat (of_nat (n mod 0x8000) :: 32 word)"
    by (simp add: header_size_mod unsigned_of_nat take_bit_eq_mod)
  then show ?thesis by (simp only: word_unat_eq_iff)
qed

lemma cleanModule_missing:
  "\<not> fs_exists env (cleanupFilePath env module_source_path root) (world s) \<Longrightarrow>
   cleanModule env module_source_path temporary_rom_path root s = (Inl MustRebuildException, s)"
  by (simp add: cleanModule_def Let_def next_do_def bind_def check_def)

lemma cleanModule_run:
  assumes ex: "fs_exists env (cleanupFilePath env module_source_path root) (world s)"
    and lines: "map stoi (readLines env (cleanupFilePath env module_source_path root) (world s))
                  = map Inr addresses"
    and patch: "patch_path = uniquePatchPath env (world s)"
    and source: "source = concat (map autocleanDirective addresses)"
    and w1: "perform env (WriteText patch_path source) (world s) = (w1, None)"
    and rom: "rom_bytes = readBytes env temporary_rom_path w1"
    and h: "h = length rom_bytes mod 0x8000"
    and params: "params = \<lparr> patchloc = patch_path, romdata = drop h rom_bytes,
                   buflen = MAX_ROM_SIZE env,
                   romlen = of_nat (length rom_bytes) - of_nat h,
                   should_reset = True, override_checksum_gen = True,
                   generate_checksum = False \<rparr>"
    and w2: "perform env AsarInit w1 = (w2, None)"
    and w3: "perform env (AsarPatchEx params) w2 = (w3, r3)"
    and w4: "perform env (WriteBytes temporary_rom_path
               (take h rom_bytes @ snd (asar_patch_ex env params w3))) w3 = (w4, r4)"
  shows "cleanModule env module_source_path temporary_rom_path root s =
     (if \<not> asar_init env w2 then
        (Inl ToolNotFoundException,
         s\<lparr>world := w2, trace := trace s @ [WriteText patch_path source, AsarInit]\<rparr>)
      else if r3 \<noteq> None then
        (Inl (the r3),
         s\<lparr>world := w3,
           trace := trace s @ [WriteText patch_path source, AsarInit, AsarPatchEx params]\<rparr>)
      else if \<not> fst (asar_patch_ex env params w3) then
        (Inl MustRebuildException,
         s\<lparr>world := w3,
           trace := trace s @ [WriteText patch_path source, AsarInit, AsarPatchEx params]\<rparr>)
      else
        (case r4 of None \<Rightarrow> Inr () | Some e \<Rightarrow> Inl e,
         s\<lparr>world := w4,
           trace := trace s @ [WriteText patch_path source, AsarInit, AsarPatchEx params,
             WriteBytes temporary_rom_path
               (take h rom_bytes @ snd (asar_patch_ex env params w3))]\<rparr>))"
proof -
  have src: "autocleanSource (readLines env (cleanupFilePath env module_source_path root) (world s)) []
      = (concat (map autocleanDirective addresses), None)"
    using autocleanSource_parsed [OF lines, of "[]"] by simp
  obtain ok buffer where a: "asar_patch_ex env params w3 = (ok, buffer)"
    by (cases "asar_patch_ex env params w3")
  show ?thesis
    using ex w1 w2 w3 w4 a unfolding params h rom patch source
    by (cases r3; cases r4)
       (simp_all add: cleanModule_def Let_def next_do_def bind_def check_def get_def call_def
         throw_def src header_size_mod header_size_word [symmetric])
qed


text \<open>
  The width 6 of the format \<open>{:06X}\<close> is a minimum. An address of the SNES has 24 bits;
  a line that holds a greater number, such as \<open>16777216\<close>, is written with more digits.
\<close>

lemma format_06X_beyond_24_bits:
  "stoi ''16777216'' = Inr 16777216
   \<and> autocleanSource [''16777216''] [] = (''autoclean $1000000'' @ [CHR 0x0A], None)
   \<and> length (format_06X 16777216) = 7
   \<and> hd (trace (snd (cleanModule
        ((scenario_env [] nothing_fails)\<lparr>readLines := (\<lambda>p w. [''16777216''])\<rparr>)
        ''m.asm'' ''temp.smc'' ''project'' (initial (scenario_world 1000) []))))
      = WriteText ''patch.asm'' (''autoclean $1000000'' @ [CHR 0x0A])"
proof -
  have a: "stoi ''16777216'' = Inr 16777216"
    by (rule stoi_16777216)
  have b: "autocleanSource [''16777216''] [] = (''autoclean $1000000'' @ [CHR 0x0A], None)"
    by (simp add: a format_16777216)
  have c: "length (format_06X 16777216) = 7"
    by (simp add: format_16777216)
  have d: "hd (trace (snd (cleanModule
        ((scenario_env [] nothing_fails)\<lparr>readLines := (\<lambda>p w. [''16777216''])\<rparr>)
        ''m.asm'' ''temp.smc'' ''project'' (initial (scenario_world 1000) []))))
      = WriteText ''patch.asm'' (''autoclean $1000000'' @ [CHR 0x0A])"
    by (simp add: cleanModule_def Let_def next_do_def bind_def check_def get_def call_def
        throw_def scenario_env_def scenario_world_def initial_def nothing_fails_def a
        format_16777216)
  from a b c d show ?thesis by (intro conjI)
qed

text \<open>
  Claim C8. \<open>cleanModule\<close> raises \<open>MustRebuild\<close> when the cleanup file of the module is
  missing, with nothing done. When the file exists, every line is read as an address,
  the assembler library initialises and no call raises: the source written to the
  temporary patch is, for every address \<open>A\<close> read and in their order, the directive
  \<open>autoclean $\<close> followed by \<open>A\<close> in the format \<open>{:06X}\<close> and a line feed; the assembler is
  given the bytes of the temporary ROM after the first \<open>size mod 0x8000\<close> ones, the header,
  and \<open>size\<close> less that header size as the length; when the assembler fails
  \<open>cleanModule\<close> raises \<open>MustRebuild\<close>, and when it succeeds the header and the buffer, as
  the assembler left it, are written back to the temporary ROM. For an address, that is
  for \<open>0 \<le> A < 0x1000000\<close>, the format is exactly six upper-case hexadecimal digits, of
  value \<open>A\<close>.
\<close>

theorem cleanModule_outcomes:
  "(\<not> fs_exists env (cleanupFilePath env module_source_path root) (world s) \<longrightarrow>
      cleanModule env module_source_path temporary_rom_path root s
        = (Inl MustRebuildException, s))
   \<and> (fs_exists env (cleanupFilePath env module_source_path root) (world s) \<longrightarrow>
       map stoi (readLines env (cleanupFilePath env module_source_path root) (world s))
         = map Inr addresses \<longrightarrow>
       patch_path = uniquePatchPath env (world s) \<longrightarrow>
       source = concat (map autocleanDirective addresses) \<longrightarrow>
       perform env (WriteText patch_path source) (world s) = (w1, None) \<longrightarrow>
       rom_bytes = readBytes env temporary_rom_path w1 \<longrightarrow>
       h = length rom_bytes mod 0x8000 \<longrightarrow>
       params = \<lparr> patchloc = patch_path, romdata = drop h rom_bytes,
                  buflen = MAX_ROM_SIZE env,
                  romlen = of_nat (length rom_bytes) - of_nat h,
                  should_reset = True, override_checksum_gen = True,
                  generate_checksum = False \<rparr> \<longrightarrow>
       perform env AsarInit w1 = (w2, None) \<longrightarrow>
       asar_init env w2 \<longrightarrow>
       perform env (AsarPatchEx params) w2 = (w3, None) \<longrightarrow>
       perform env (WriteBytes temporary_rom_path
          (take h rom_bytes @ snd (asar_patch_ex env params w3))) w3 = (w4, None) \<longrightarrow>
       cleanModule env module_source_path temporary_rom_path root s =
         (if fst (asar_patch_ex env params w3) then
            (Inr (),
             s\<lparr>world := w4,
               trace := trace s @ [WriteText patch_path source, AsarInit, AsarPatchEx params,
                 WriteBytes temporary_rom_path
                   (take h rom_bytes @ snd (asar_patch_ex env params w3))]\<rparr>)
          else
            (Inl MustRebuildException,
             s\<lparr>world := w3,
               trace := trace s @ [WriteText patch_path source, AsarInit,
                 AsarPatchEx params]\<rparr>)))
   \<and> autocleanDirective A = ''autoclean $'' @ format_06X A @ [CHR 0x0A]
   \<and> (0 \<le> A \<longrightarrow> A < 2 ^ 24 \<longrightarrow>
        length (format_06X A) = 6
        \<and> set (format_06X A) \<subseteq> set ''0123456789ABCDEF''
        \<and> int (hexValue (format_06X A)) = A)"
proof -
  have a: "\<not> fs_exists env (cleanupFilePath env module_source_path root) (world s) \<longrightarrow>
      cleanModule env module_source_path temporary_rom_path root s
        = (Inl MustRebuildException, s)"
    by (intro impI) (rule cleanModule_missing)
  have b: "fs_exists env (cleanupFilePath env module_source_path root) (world s) \<longrightarrow>
       map stoi (readLines env (cleanupFilePath env module_source_path root) (world s))
         = map Inr addresses \<longrightarrow>
       patch_path = uniquePatchPath env (world s) \<longrightarrow>
       source = concat (map autocleanDirective addresses) \<longrightarrow>
       perform env (WriteText patch_path source) (world s) = (w1, None) \<longrightarrow>
       rom_bytes = readBytes env temporary_rom_path w1 \<longrightarrow>
       h = length rom_bytes mod 0x8000 \<longrightarrow>
       params = \<lparr> patchloc = patch_path, romdata = drop h rom_bytes,
                  buflen = MAX_ROM_SIZE env,
                  romlen = of_nat (length rom_bytes) - of_nat h,
                  should_reset = True, override_checksum_gen = True,
                  generate_checksum = False \<rparr> \<longrightarrow>
       perform env AsarInit w1 = (w2, None) \<longrightarrow>
       asar_init env w2 \<longrightarrow>
       perform env (AsarPatchEx params) w2 = (w3, None) \<longrightarrow>
       perform env (WriteBytes temporary_rom_path
          (take h rom_bytes @ snd (asar_patch_ex env params w3))) w3 = (w4, None) \<longrightarrow>
       cleanModule env module_source_path temporary_rom_path root s =
         (if fst (asar_patch_ex env params w3) then
            (Inr (),
             s\<lparr>world := w4,
               trace := trace s @ [WriteText patch_path source, AsarInit, AsarPatchEx params,
                 WriteBytes temporary_rom_path
                   (take h rom_bytes @ snd (asar_patch_ex env params w3))]\<rparr>)
          else
            (Inl MustRebuildException,
             s\<lparr>world := w3,
               trace := trace s @ [WriteText patch_path source, AsarInit,
                 AsarPatchEx params]\<rparr>))"
  proof (intro impI)
    assume ex: "fs_exists env (cleanupFilePath env module_source_path root) (world s)"
      and lines: "map stoi (readLines env (cleanupFilePath env module_source_path root) (world s))
         = map Inr addresses"
      and patch: "patch_path = uniquePatchPath env (world s)"
      and source: "source = concat (map autocleanDirective addresses)"
      and w1: "perform env (WriteText patch_path source) (world s) = (w1, None)"
      and rom: "rom_bytes = readBytes env temporary_rom_path w1"
      and h: "h = length rom_bytes mod 0x8000"
      and params: "params = \<lparr> patchloc = patch_path, romdata = drop h rom_bytes,
                  buflen = MAX_ROM_SIZE env,
                  romlen = of_nat (length rom_bytes) - of_nat h,
                  should_reset = True, override_checksum_gen = True,
                  generate_checksum = False \<rparr>"
      and w2: "perform env AsarInit w1 = (w2, None)"
      and init: "asar_init env w2"
      and w3: "perform env (AsarPatchEx params) w2 = (w3, None)"
      and w4: "perform env (WriteBytes temporary_rom_path
          (take h rom_bytes @ snd (asar_patch_ex env params w3))) w3 = (w4, None)"
    show "cleanModule env module_source_path temporary_rom_path root s =
         (if fst (asar_patch_ex env params w3) then
            (Inr (),
             s\<lparr>world := w4,
               trace := trace s @ [WriteText patch_path source, AsarInit, AsarPatchEx params,
                 WriteBytes temporary_rom_path
                   (take h rom_bytes @ snd (asar_patch_ex env params w3))]\<rparr>)
          else
            (Inl MustRebuildException,
             s\<lparr>world := w3,
               trace := trace s @ [WriteText patch_path source, AsarInit,
                 AsarPatchEx params]\<rparr>))"
      unfolding cleanModule_run [OF ex lines patch source w1 rom h params w2 w3 w4]
      using init by simp
  qed
  have c: "autocleanDirective A = ''autoclean $'' @ format_06X A @ [CHR 0x0A]"
    by (rule autocleanDirective_def)
  have e: "0 \<le> A \<longrightarrow> A < 2 ^ 24 \<longrightarrow>
        length (format_06X A) = 6
        \<and> set (format_06X A) \<subseteq> set ''0123456789ABCDEF''
        \<and> int (hexValue (format_06X A)) = A"
    by (intro impI conjI format_06X_address)
  from a b c e show ?thesis by (intro conjI)
qed

theorem cleanModule_outcomes_witness:
  "cleanModule (scenario_env [] nothing_fails) ''m.asm'' ''temp.smc'' ''project''
      (initial (scenario_world 1000) [])
     = (Inr (),
        (initial (scenario_world 1000) [])
          \<lparr>world := scenario_world 1000,
           trace := [WriteText ''patch.asm'' (''autoclean $108000'' @ [CHR 0x0A]), AsarInit,
             AsarPatchEx \<lparr> patchloc = ''patch.asm'', romdata = [], buflen = 16777216,
               romlen = 0, should_reset = True, override_checksum_gen = True,
               generate_checksum = False \<rparr>,
             WriteBytes ''temp.smc'' (replicate 514 0)]\<rparr>)
   \<and> cleanModule (scenario_env [] nothing_fails) ''m.asm'' ''temp.smc'' ''project''
      ((initial (scenario_world 1000) [])\<lparr>world := Map.empty\<rparr>)
     = (Inl MustRebuildException, (initial (scenario_world 1000) [])\<lparr>world := Map.empty\<rparr>)
   \<and> length (format_06X 1081344) = 6
   \<and> int (hexValue (format_06X 1081344)) = 1081344"
proof -
  let ?env = "scenario_env [] nothing_fails"
  let ?w = "scenario_world 1000"
  let ?s = "initial ?w []"
  let ?params = "\<lparr> patchloc = ''patch.asm'', romdata = [], buflen = 16777216,
               romlen = 0, should_reset = True, override_checksum_gen = True,
               generate_checksum = False \<rparr>"
  note t = cleanModule_outcomes [where env = ?env and module_source_path = "''m.asm''"
      and root = "''project''" and temporary_rom_path = "''temp.smc''" and A = 1081344]
  have h1: "fs_exists ?env (cleanupFilePath ?env ''m.asm'' ''project'') (world ?s)"
    by (simp add: scenario_env_def scenario_world_def initial_def)
  have h2: "map stoi (readLines ?env (cleanupFilePath ?env ''m.asm'' ''project'') (world ?s))
      = map Inr [1081344]"
    by (simp add: scenario_env_def stoi_def isspace_def isdigit_def digitValue_def Let_def)
  have h3: "''patch.asm'' = uniquePatchPath ?env (world ?s)"
    by (simp add: scenario_env_def)
  have h4: "''autoclean $108000'' @ [CHR 0x0A] = concat (map autocleanDirective [1081344])"
    by (simp add: autocleanDirective_def format_06X_def hexDigits.simps hexDigit_def Let_def)
  have h5: "perform ?env (WriteText ''patch.asm'' (''autoclean $108000'' @ [CHR 0x0A])) (world ?s)
      = (?w, None)"
    by (simp add: scenario_env_def nothing_fails_def initial_def)
  have h6: "replicate 514 (0::byte) = readBytes ?env ''temp.smc'' ?w"
    by (simp add: scenario_env_def)
  have h7: "514 = length (replicate 514 (0::byte)) mod 0x8000"
    by simp
  have h8: "?params = \<lparr> patchloc = ''patch.asm'', romdata = drop 514 (replicate 514 (0::byte)),
                  buflen = MAX_ROM_SIZE ?env,
                  romlen = of_nat (length (replicate 514 (0::byte))) - of_nat 514,
                  should_reset = True, override_checksum_gen = True,
                  generate_checksum = False \<rparr>"
    by (simp add: scenario_env_def)
  have h9: "perform ?env AsarInit ?w = (?w, None)"
    by (simp add: scenario_env_def nothing_fails_def)
  have h10: "asar_init ?env ?w"
    by (simp add: scenario_env_def)
  have h11: "perform ?env (AsarPatchEx ?params) ?w = (?w, None)"
    by (simp add: scenario_env_def nothing_fails_def)
  have h12: "perform ?env (WriteBytes ''temp.smc''
          (take 514 (replicate 514 (0::byte)) @ snd (asar_patch_ex ?env ?params ?w))) ?w
      = (?w, None)"
    by (simp add: scenario_env_def nothing_fails_def)
  have ok: "fst (asar_patch_ex ?env ?params ?w)" "snd (asar_patch_ex ?env ?params ?w) = []"
    by (simp_all add: scenario_env_def)
  have a: "cleanModule ?env ''m.asm'' ''temp.smc'' ''project'' ?s
     = (Inr (),
        ?s\<lparr>world := ?w,
           trace := [WriteText ''patch.asm'' (''autoclean $108000'' @ [CHR 0x0A]), AsarInit,
             AsarPatchEx ?params, WriteBytes ''temp.smc'' (replicate 514 0)]\<rparr>)"
    using t [where s = ?s, THEN conjunct2, THEN conjunct1, rule_format,
        OF h1 h2 h3 h4 h5 h6 h7 h8 h9 h10 h11 h12] ok
    by (simp add: initial_def)
  have g1: "\<not> fs_exists ?env (cleanupFilePath ?env ''m.asm'' ''project'')
      (world (?s\<lparr>world := Map.empty\<rparr>))"
    by (simp add: scenario_env_def)
  have b: "cleanModule ?env ''m.asm'' ''temp.smc'' ''project'' (?s\<lparr>world := Map.empty\<rparr>)
     = (Inl MustRebuildException, ?s\<lparr>world := Map.empty\<rparr>)"
    using t [where s = "?s\<lparr>world := Map.empty\<rparr>", THEN conjunct1, rule_format, OF g1] .
  have r: "(0::int) \<le> 1081344" "(1081344::int) < 2 ^ 24"
    by simp_all
  note f = t [where s = ?s, THEN conjunct2, THEN conjunct2, THEN conjunct2,
      rule_format, OF r]
  from a b f show ?thesis by (intro conjI) simp_all
qed

subsection \<open>What the blocks of the driver leave unchanged\<close>

lemma bind_cases:
  assumes "bind m k s = (r, s')"
  obtains (raised) e where "m s = (Inl e, s')" and "r = Inl e"
    | (returned) a s1 where "m s = (Inr a, s1)" and "k a s1 = (r, s')"
proof (cases "m s")
  case (Pair x s1)
  show ?thesis
  proof (cases x)
    case (Inl e)
    with Pair assms have "m s = (Inl e, s')" and "r = Inl e"
      by (simp_all add: bind_def)
    then show ?thesis by (rule raised)
  next
    case (Inr a)
    with Pair assms have "m s = (Inr a, s1)" and "k a s1 = (r, s')"
      by (simp_all add: bind_def)
    then show ?thesis by (rule returned)
  qed
qed

lemma next_do_cases:
  assumes "next_do m m' s = (r, s')"
  obtains (raised) e where "m s = (Inl e, s')" and "r = Inl e"
    | (returned) s1 where "m s = (Inr (), s1)" and "m' s1 = (r, s')"
  using assms unfolding next_do_def by (rule bind_cases) auto

lemma preservesD:
  assumes "preserves P R m" and "P s" and "m s = (r, s')"
  shows "R s s'" and "P s'"
  using assms by (auto simp: preserves_def)

lemma preserves_tryInsertWithDependencies:
  assumes "A (InsertWithDependencies d)" and "local_only f" and "local_only P"
    and "\<And>s x. f (s\<lparr>failed_dependency_report := x\<rparr>) = f s"
    and "\<And>s x. P s \<Longrightarrow> P (s\<lparr>failed_dependency_report := x\<rparr>)"
  shows "preserves P (frame A f) (tryInsertWithDependencies env d)"
  unfolding preserves_def
proof (intro allI impI)
  fix s
  assume p: "P s"
  obtain r s1 where c: "call env (InsertWithDependencies d) s = (r, s1)"
    by (cases "call env (InsertWithDependencies d) s")
  from preserves_call [where A = A and eff = "InsertWithDependencies d" and env = env
      and f = f and P = P, OF assms(1-3)] p c have f: "frame A f s s1" and p1: "P s1"
    by (auto dest: preservesD)
  from f have f': "frame A f s (s1\<lparr>failed_dependency_report := x\<rparr>)" for x
    by (simp add: frame_def assms(4))
  from p1 have p': "P (s1\<lparr>failed_dependency_report := x\<rparr>)" for x
    by (rule assms(5))
  from c f p1 f' p'
  show "frame A f s (snd (tryInsertWithDependencies env d s))
      \<and> P (snd (tryInsertWithDependencies env d s))"
    by (cases r) (simp_all add: tryInsertWithDependencies_def)
qed

lemma preserves_copyOldModuleOutput:
  assumes "local_only f" and "local_only P"
    and "\<And>p. A (FsCreateDirectories p)" and "\<And>p q. A (FsCopyFile p q)"
  shows "preserves P (frame A f) (copyOldModuleOutput env outputs root)"
proof (induction outputs)
  case Nil
  show ?case by (simp add: preserves_return_ok)
next
  case (Cons output_path outputs)
  show ?case
    unfolding copyOldModuleOutput.simps Let_def
    by (intro preserves_rules preserves_call assms Cons)
qed

lemma preserves_cleanModule:
  assumes "local_only f" and "local_only P"
    and "\<And>p t. A (WriteText p t)" and "A AsarInit" and "\<And>p. A (AsarPatchEx p)"
    and "\<And>p b. A (WriteBytes p b)"
  shows "preserves P (frame A f) (cleanModule env module_source_path temporary_rom_path root)"
  unfolding cleanModule_def Let_def
  by (intro preserves_rules preserves_call assms)

lemma preserves_keep:
  assumes "local_only f" and "local_only P"
    and "\<And>p. A (FsCreateDirectories p)" and "\<And>p q. A (FsCopyFile p q)"
    and "A (Log (AlreadyUpToDate d))"
  shows "preserves P (frame A f) (keep env report root d)"
  unfolding keep_def
  by (intro preserves_rules preserves_copyOldModuleOutput preserves_logMessage assms)

lemma preserves_validateHijacks:
  assumes "\<And>s e. P s \<Longrightarrow> f (s\<lparr>dependencies := (dependencies s)[i := (dependencies s ! i)\<lparr>hijacks := e\<rparr>]\<rparr>) = f s
      \<and> P (s\<lparr>dependencies := (dependencies s)[i := (dependencies s ! i)\<lparr>hijacks := e\<rparr>]\<rparr>)"
  shows "preserves P (frame A f) (validateHijacks env i d)"
  unfolding validateHijacks_def
  by (intro preserves_rules preserves_modify) (simp add: assms)

lemma preserves_classify:
  assumes "local_only f" and "local_only P" and "\<And>eff. entryEffect eff \<Longrightarrow> A eff"
  shows "preserves P (frame A f) (classify env config entry)"
  unfolding classify_def
  by (intro preserves_rules preserves_logMessage assms) simp_all

lemma preserves_copyRomOnce:
  assumes "local_only f" and "local_only P" and "\<And>eff. entryEffect eff \<Longrightarrow> A eff"
    and "\<And>s. P s \<Longrightarrow> f (s\<lparr>any_work_done := True\<rparr>) = f s \<and> P (s\<lparr>any_work_done := True\<rparr>)"
  shows "preserves P (frame A f) (copyRomOnce env config temporary_rom_path)"
  unfolding copyRomOnce_def
  by (intro preserves_rules preserves_call preserves_modify assms) (simp_all add: assms)

lemma preserves_insertEntry:
  assumes "local_only f" and "local_only P" and "\<And>eff. entryEffect eff \<Longrightarrow> A eff"
    and "A (InsertWithDependencies d)"
    and "\<And>s x. f (s\<lparr>failed_dependency_report := x\<rparr>) = f s"
    and "\<And>s x. P s \<Longrightarrow> P (s\<lparr>failed_dependency_report := x\<rparr>)"
    and "\<And>s c r. P s \<Longrightarrow>
          f (s\<lparr>dependencies := (dependencies s)[i := (dependencies s ! i)
               \<lparr>configuration_dependencies := c, resource_dependencies := r\<rparr>]\<rparr>) = f s
        \<and> P (s\<lparr>dependencies := (dependencies s)[i := (dependencies s ! i)
               \<lparr>configuration_dependencies := c, resource_dependencies := r\<rparr>]\<rparr>)"
  shows "preserves P (frame A f) (insertEntry env i d)"
  unfolding insertEntry_def
  by (intro preserves_rules preserves_call preserves_modify preserves_tryInsertWithDependencies
        assms)
     (simp_all add: assms)

lemma preserves_insertionSteps:
  assumes "local_only f" and "local_only P" and "\<And>eff. entryEffect eff \<Longrightarrow> A eff"
    and "preserves P (frame A f) (insertEntry env i d)"
    and "\<And>s e. P s \<Longrightarrow>
          f (s\<lparr>dependencies := (dependencies s)[i := (dependencies s ! i)\<lparr>hijacks := e\<rparr>]\<rparr>) = f s
        \<and> P (s\<lparr>dependencies := (dependencies s)[i := (dependencies s ! i)\<lparr>hijacks := e\<rparr>]\<rparr>)"
  shows "preserves P (frame A f) (insertionSteps env temporary_rom_path root i d)"
  unfolding insertionSteps_def
  by (intro preserves_rules preserves_call preserves_cleanModule preserves_validateHijacks assms)
     simp_all

lemma preserves_reinsert:
  assumes "local_only f" and "local_only P" and "\<And>eff. entryEffect eff \<Longrightarrow> A eff"
    and "\<And>s. P s \<Longrightarrow> f (s\<lparr>any_work_done := True\<rparr>) = f s \<and> P (s\<lparr>any_work_done := True\<rparr>)"
    and "preserves P (frame A f) (insertEntry env i d)"
    and "\<And>s e. P s \<Longrightarrow>
          f (s\<lparr>dependencies := (dependencies s)[i := (dependencies s ! i)\<lparr>hijacks := e\<rparr>]\<rparr>) = f s
        \<and> P (s\<lparr>dependencies := (dependencies s)[i := (dependencies s ! i)\<lparr>hijacks := e\<rparr>]\<rparr>)"
  shows "preserves P (frame A f) (reinsert env config temporary_rom_path root i d)"
  unfolding reinsert_def
  by (intro preserves_rules preserves_copyRomOnce preserves_insertionSteps assms)

lemma preserves_processEntry:
  assumes "local_only f" and "local_only P" and "\<And>eff. entryEffect eff \<Longrightarrow> A eff"
    and "\<And>s. P s \<Longrightarrow> f (s\<lparr>any_work_done := True\<rparr>) = f s \<and> P (s\<lparr>any_work_done := True\<rparr>)"
    and "\<And>d. preserves P (frame A f) (insertEntry env i d)"
    and "\<And>s e. P s \<Longrightarrow>
          f (s\<lparr>dependencies := (dependencies s)[i := (dependencies s ! i)\<lparr>hijacks := e\<rparr>]\<rparr>) = f s
        \<and> P (s\<lparr>dependencies := (dependencies s)[i := (dependencies s ! i)\<lparr>hijacks := e\<rparr>]\<rparr>)"
  shows "preserves P (frame A f) (processEntry env config report temporary_rom_path i)"
  unfolding processEntry_def
  by (intro preserves_rules preserves_classify preserves_reinsert preserves_keep assms) simp_all

lemma preserves_entryLoop:
  assumes "local_only f" and "local_only P" and "\<And>eff. entryEffect eff \<Longrightarrow> A eff"
    and "\<And>s. P s \<Longrightarrow> f (s\<lparr>any_work_done := True\<rparr>) = f s \<and> P (s\<lparr>any_work_done := True\<rparr>)"
    and "\<And>i d. preserves P (frame A f) (insertEntry env i d)"
    and "\<And>s i e. P s \<Longrightarrow>
          f (s\<lparr>dependencies := (dependencies s)[i := (dependencies s ! i)\<lparr>hijacks := e\<rparr>]\<rparr>) = f s
        \<and> P (s\<lparr>dependencies := (dependencies s)[i := (dependencies s ! i)\<lparr>hijacks := e\<rparr>]\<rparr>)"
  shows "preserves P (frame A f) (entryLoop env config report temporary_rom_path indices)"
proof (induction indices)
  case Nil
  show ?case by (simp add: preserves_return_ok)
next
  case (Cons i indices)
  show ?case
    unfolding entryLoop.simps
    by (intro preserves_next_do preserves_processEntry assms Cons)
qed

subsection \<open>The hijacks of a reinserted patch\<close>

lemma next_do_returned:
  assumes "next_do m m' s = (Inr b, s')" and "preserves P R m" and "P s"
  obtains s1 where "R s s1" and "P s1" and "m' s1 = (Inr b, s')"
  using assms(1)
proof (cases rule: next_do_cases)
  case (raised e)
  then show ?thesis by simp
next
  case (returned s1)
  from preservesD [OF assms(2,3) returned(1)] returned(2) show ?thesis
    by (rule that)
qed


lemma validateHijacks_patch:
  "symbol d = PATCH \<Longrightarrow>
   validateHijacks env i d s =
     (if hijacksGoneBad (hijacks (dependencies s ! i)) (getHijacks env d (world s))
      then (Inl MustRebuildException, s)
      else (Inr (), s\<lparr>dependencies := (dependencies s)
              [i := (dependencies s ! i)\<lparr>hijacks := getHijacks env d (world s)\<rparr>]\<rparr>))"
  by (simp add: validateHijacks_def bind_def get_def throw_def modify_def)

lemma rangeAddresses_interval:
  assumes "unat address + unat number \<le> 2 ^ 64"
  shows "rangeAddresses (address, number) =
         {a. unat address \<le> unat a \<and> unat a < unat address + unat number}"
proof (rule set_eqI)
  fix a :: size_t
  show "a \<in> rangeAddresses (address, number) \<longleftrightarrow>
        a \<in> {a. unat address \<le> unat a \<and> unat a < unat address + unat number}"
  proof
    assume "a \<in> rangeAddresses (address, number)"
    then obtain k where k: "k < unat number" "a = address + of_nat k"
      by (auto simp: rangeAddresses_def)
    from k(1) assms have lt: "unat address + k < 2 ^ 64" by simp
    then have "k < 2 ^ 64" by simp
    then have uk: "unat (of_nat k :: size_t) = k"
      by (simp add: unsigned_of_nat take_bit_nat_eq_self)
    with lt have "unat address + unat (of_nat k :: size_t) < 2 ^ LENGTH(64)" by simp
    then have "unat (address + of_nat k) = unat address + unat (of_nat k :: size_t)"
      by (simp only: unat_add_lem)
    with uk have "unat (address + of_nat k) = unat address + k" by simp
    with k show "a \<in> {a. unat address \<le> unat a \<and> unat a < unat address + unat number}"
      by simp
  next
    assume "a \<in> {a. unat address \<le> unat a \<and> unat a < unat address + unat number}"
    then have b: "unat address \<le> unat a" "unat a - unat address < unat number"
      by auto
    then have "address \<le> a" by (simp add: word_le_nat_alt)
    then have "unat (a - address) = unat a - unat address"
      by (rule unat_sub)
    then have "of_nat (unat a - unat address) = (of_nat (unat (a - address)) :: size_t)"
      by simp
    also have "\<dots> = a - address"
      by simp
    finally have eq: "a = address + of_nat (unat a - unat address)"
      by simp
    show "a \<in> rangeAddresses (address, number)"
      unfolding rangeAddresses_def fst_conv snd_conv
      using eq b(2) by (intro image_eqI [where x = "unat a - unat address"]) simp_all
  qed
qed


lemma local_only_hijacks: "local_only (\<lambda>s. map hijacks (dependencies s))"
  by (simp add: local_only_def)

lemma local_only_True: "local_only (\<lambda>s. True)"
  by (simp add: local_only_def)

lemma map_hijacks_update:
  "map hijacks (deps[i := (deps ! i)\<lparr>configuration_dependencies := c, resource_dependencies := r\<rparr>])
     = map hijacks deps"
proof (cases "i < length deps")
  case True
  then have "(map hijacks deps)[i := map hijacks deps ! i] = map hijacks deps"
    by (simp only: list_update_id)
  with True show ?thesis by (simp add: map_update)
next
  case False
  then have "length deps \<le> i" by simp
  then show ?thesis by (simp only: list_update_beyond)
qed

lemma reinsert_patch_hijacks:
  assumes patch: "symbol d = PATCH" and i: "i < length (dependencies s)"
    and run: "reinsert env config temporary_rom_path root i d s = (Inr (), s')"
  shows "\<not> hijacksGoneBad (hijacks (dependencies s ! i)) (getHijacks env d (world s'))"
    and "hijacks (dependencies s' ! i) = getHijacks env d (world s')"
proof -
  let ?f = "\<lambda>s::'a State. map hijacks (dependencies s)"
  let ?R = "frame (\<lambda>eff. True) ?f"
  let ?P = "\<lambda>s::'a State. True"
  note l = local_only_hijacks local_only_True
  have c1: "preserves ?P ?R (copyRomOnce env config temporary_rom_path)"
    by (rule preserves_copyRomOnce [OF l]) simp_all
  have c2: "preserves ?P ?R (if symbol d = MODULE
              then bind (check (\<lambda>s. name_value d)) (\<lambda>module_name.
                     cleanModule env module_name temporary_rom_path root)
              else return_ok ())"
    using patch by (simp add: preserves_return_ok)
  have c3: "preserves ?P ?R (call env eff)" for eff
    by (rule preserves_call [OF _ l]) simp
  have c4: "preserves ?P ?R (insertEntry env i d)"
    by (rule preserves_insertEntry [OF l]) (simp_all add: map_hijacks_update)
  from run obtain s1 where s1: "?R s s1"
    and r1: "insertionSteps env temporary_rom_path root i d s1 = (Inr (), s')"
    unfolding reinsert_def by (rule next_do_returned [OF _ c1]) simp_all
  from r1 obtain s2 where s2: "?R s1 s2"
    and r2: "next_do (call env (DescriptorToInsertable d))
              (next_do (call env (InsertableInit d))
              (next_do (insertEntry env i d) (validateHijacks env i d))) s2 = (Inr (), s')"
    unfolding insertionSteps_def by (rule next_do_returned [OF _ c2]) simp_all
  from r2 obtain s3 where s3: "?R s2 s3"
    and r3: "next_do (call env (InsertableInit d))
              (next_do (insertEntry env i d) (validateHijacks env i d)) s3 = (Inr (), s')"
    by (rule next_do_returned [OF _ c3]) simp_all
  from r3 obtain s4 where s4: "?R s3 s4"
    and r4: "next_do (insertEntry env i d) (validateHijacks env i d) s4 = (Inr (), s')"
    by (rule next_do_returned [OF _ c3]) simp_all
  from r4 obtain s5 where s5: "?R s4 s5"
    and r5: "validateHijacks env i d s5 = (Inr (), s')"
    by (rule next_do_returned [OF _ c4]) simp_all
  from s1 s2 s3 s4 s5 have "?R s s5"
    by (blast intro: frame_trans)
  then have m: "map hijacks (dependencies s5) = map hijacks (dependencies s)"
    by (simp add: frame_def)
  then have len: "length (dependencies s5) = length (dependencies s)"
    by (rule map_eq_imp_length_eq)
  with i m have old: "hijacks (dependencies s5 ! i) = hijacks (dependencies s ! i)"
    by (metis nth_map)
  from r5 patch have good: "\<not> hijacksGoneBad (hijacks (dependencies s5 ! i)) (getHijacks env d (world s5))"
    and s': "s' = s5\<lparr>dependencies := (dependencies s5)
              [i := (dependencies s5 ! i)\<lparr>hijacks := getHijacks env d (world s5)\<rparr>]\<rparr>"
    by (auto simp: validateHijacks_patch split: if_splits)
  from s' have w: "world s' = world s5" by simp
  from good old w show "\<not> hijacksGoneBad (hijacks (dependencies s ! i)) (getHijacks env d (world s'))"
    by simp
  from s' i len w show "hijacks (dependencies s' ! i) = getHijacks env d (world s')"
    by simp
qed

text \<open>
  Claim C1. \<open>hijacksGoneBad\<close> returns \<open>true\<close> iff some byte address covered by a range of
  \<open>old_hijacks\<close> is covered by no range of \<open>new_hijacks\<close>, where the range
  \<open>(address, number)\<close> covers the addresses \<open>address + k\<close> for \<open>k < number\<close> (the interval
  from \<open>address\<close> up to \<open>address + number\<close> when that sum is a \<open>size_t\<close>). So a patch
  entry whose reinsertion returns has the addresses of its old hijacks among those of
  its new hijacks, which are then the hijacks of the entry; the validation of a patch
  raises \<open>MustRebuild\<close> only when the hijacks have gone bad; and addresses that only the
  new hijacks cover never make them so.
\<close>

theorem hijacks_of_reinserted_patch_cover_old:
  "(hijacksGoneBad old_hijacks new_hijacks \<longleftrightarrow>
      (\<exists>a. a \<in> addressSet old_hijacks \<and> a \<notin> addressSet new_hijacks))
   \<and> (a \<in> addressSet hs \<longleftrightarrow> (\<exists>h\<in>set hs. \<exists>k<unat (snd h). a = fst h + of_nat k))
   \<and> (unat address + unat number \<le> 2 ^ 64 \<longrightarrow>
        rangeAddresses (address, number) =
          {a. unat address \<le> unat a \<and> unat a < unat address + unat number})
   \<and> (symbol d = PATCH \<longrightarrow> i < length (dependencies s) \<longrightarrow>
        reinsert env config temporary_rom_path root i d s = (Inr (), s') \<longrightarrow>
          addressSet (hijacks (dependencies s ! i)) \<subseteq> addressSet (getHijacks env d (world s'))
          \<and> hijacks (dependencies s' ! i) = getHijacks env d (world s'))
   \<and> (symbol d = PATCH \<longrightarrow>
        validateHijacks env i d s =
          (if hijacksGoneBad (hijacks (dependencies s ! i)) (getHijacks env d (world s))
           then (Inl MustRebuildException, s)
           else (Inr (), s\<lparr>dependencies := (dependencies s)
                   [i := (dependencies s ! i)\<lparr>hijacks := getHijacks env d (world s)\<rparr>]\<rparr>)))
   \<and> (addressSet old_hijacks \<subseteq> addressSet new_hijacks \<longrightarrow>
        \<not> hijacksGoneBad old_hijacks (new_hijacks @ extra))"
proof -
  have a: "hijacksGoneBad old_hijacks new_hijacks \<longleftrightarrow>
      (\<exists>a. a \<in> addressSet old_hijacks \<and> a \<notin> addressSet new_hijacks)"
    by (auto simp: hijacksGoneBad_subset)
  have b: "a \<in> addressSet hs \<longleftrightarrow> (\<exists>h\<in>set hs. \<exists>k<unat (snd h). a = fst h + of_nat k)"
    by (auto simp: addressSet_def rangeAddresses_def)
  have c: "unat address + unat number \<le> 2 ^ 64 \<longrightarrow>
        rangeAddresses (address, number) =
          {a. unat address \<le> unat a \<and> unat a < unat address + unat number}"
    by (intro impI) (rule rangeAddresses_interval)
  have d: "symbol d = PATCH \<longrightarrow> i < length (dependencies s) \<longrightarrow>
        reinsert env config temporary_rom_path root i d s = (Inr (), s') \<longrightarrow>
          addressSet (hijacks (dependencies s ! i)) \<subseteq> addressSet (getHijacks env d (world s'))
          \<and> hijacks (dependencies s' ! i) = getHijacks env d (world s')"
    using reinsert_patch_hijacks [of d i s env config temporary_rom_path root s']
    by (simp add: hijacksGoneBad_subset)
  have e: "symbol d = PATCH \<longrightarrow>
        validateHijacks env i d s =
          (if hijacksGoneBad (hijacks (dependencies s ! i)) (getHijacks env d (world s))
           then (Inl MustRebuildException, s)
           else (Inr (), s\<lparr>dependencies := (dependencies s)
                   [i := (dependencies s ! i)\<lparr>hijacks := getHijacks env d (world s)\<rparr>]\<rparr>))"
    by (intro impI) (rule validateHijacks_patch)
  have f: "addressSet old_hijacks \<subseteq> addressSet new_hijacks \<longrightarrow>
        \<not> hijacksGoneBad old_hijacks (new_hijacks @ extra)"
    by (auto simp: hijacksGoneBad_subset addressSet_append)
  from a b c d e f show ?thesis by (intro conjI)
qed

theorem hijacks_of_reinserted_patch_cover_old_witness:
  "addressSet (hijacks (scenario_dependencies ! 1))
     \<subseteq> addressSet (getHijacks (scenario_env [(0x108000, 16), (0x108100, 8)] nothing_fails)
         (descriptor patch_entry)
         (world (snd (reinsert (scenario_env [(0x108000, 16), (0x108100, 8)] nothing_fails)
            scenario_config ''temp.smc'' ''project'' 1 (descriptor patch_entry)
            (initial (scenario_world 2000) scenario_dependencies)))))
   \<and> hijacks (dependencies (snd (reinsert
          (scenario_env [(0x108000, 16), (0x108100, 8)] nothing_fails)
          scenario_config ''temp.smc'' ''project'' 1 (descriptor patch_entry)
          (initial (scenario_world 2000) scenario_dependencies))) ! 1)
       = [(0x108000, 16), (0x108100, 8)]
   \<and> \<not> hijacksGoneBad [(0x108000, 16)] ([(0x108000, 16)] @ [(0x108100, 8)])"
proof -
  let ?env = "scenario_env [(0x108000, 16), (0x108100, 8)] nothing_fails"
  let ?d = "descriptor patch_entry"
  let ?s = "initial (scenario_world 2000) scenario_dependencies"
  let ?run = "reinsert ?env scenario_config ''temp.smc'' ''project'' 1 ?d ?s"
  have h1: "symbol ?d = PATCH"
    by (simp add: patch_entry_def)
  have h2: "1 < length (dependencies ?s)"
    by (simp add: initial_def scenario_dependencies_def)
  have "fst ?run = Inr ()"
    by (simp add: reinsert_def insertionSteps_def copyRomOnce_def insertEntry_def
        tryInsertWithDependencies_def validateHijacks_def next_do_def bind_def get_def
        check_def call_def modify_def return_ok_def throw_def getOrThrow_def
        scenario_env_def scenario_config_def scenario_dependencies_def patch_entry_def
        initial_def nothing_fails_def hijacksGoneBad_def insertRange.simps rangeMissing.simps)
  then have h3: "?run = (Inr (), snd ?run)"
    by (metis prod.collapse)
  have h4: "addressSet [(0x108000, 16 :: size_t)] \<subseteq> addressSet [(0x108000, 16)]"
    by simp
  note t = hijacks_of_reinserted_patch_cover_old [where env = ?env and d = ?d and s = ?s
      and i = 1 and config = scenario_config and temporary_rom_path = "''temp.smc''"
      and root = "''project''" and s' = "snd ?run"]
  note a = t [THEN conjunct2, THEN conjunct2, THEN conjunct2, THEN conjunct1, rule_format,
      OF h1 h2 h3]
  note b = hijacks_of_reinserted_patch_cover_old [where old_hijacks = "[(0x108000, 16)]"
      and new_hijacks = "[(0x108000, 16)]" and extra = "[(0x108100, 8)]",
      THEN conjunct2, THEN conjunct2, THEN conjunct2, THEN conjunct2, THEN conjunct2,
      rule_format, OF h4]
  have g: "getHijacks ?env ?d (world (snd ?run)) = [(0x108000, 16), (0x108100, 8)]"
    by (simp add: scenario_env_def)
  have i: "dependencies ?s ! 1 = scenario_dependencies ! 1"
    by (simp add: initial_def)
  from a b show ?thesis
    unfolding g i by (intro conjI) simp_all
qed

subsection \<open>The per-report checks of \<open>build\<close>\<close>

lemma logMessage_eq: "logMessage m s = (Inr (), s\<lparr>trace := trace s @ [Log m]\<rparr>)"
  by (simp add: logMessage_def modify_def)

lemma next_do_logMessage:
  "next_do (logMessage m) k s = k (s\<lparr>trace := trace s @ [Log m]\<rparr>)"
  by (simp add: next_do_def bind_def logMessage_eq)

lemma next_do_check:
  "next_do (check c) k s = (case c s of Inl e \<Rightarrow> (Inl e, s) | Inr u \<Rightarrow> k s)"
  by (simp add: next_do_def bind_def check_def split: sum.splits)

lemma next_do_assoc: "next_do (next_do a b) k = next_do a (next_do b k)"
  by (auto simp: next_do_def bind_def fun_eq_iff split: prod.splits sum.splits)

lemma next_do_return_ok: "next_do (return_ok ()) k = k"
  by (simp add: next_do_def bind_def return_ok_def)

lemma perReportChecks_sequence:
  assumes i: "perform env BuilderInit (world s) = (w1, None)"
    and rom: "output_rom config = Some rom"
  shows "perReportChecks env config report s =
     (case checkOutputRomExists env config w1 of
        Inl e \<Rightarrow> (Inl e, s\<lparr>world := w1, trace := trace s @ checksReached config rom 1\<rparr>)
      | Inr u \<Rightarrow>
     (case checkRebuildRomSize report config of
        Inl e \<Rightarrow> (Inl e, s\<lparr>world := w1, trace := trace s @ checksReached config rom 2\<rparr>)
      | Inr u \<Rightarrow>
     (case checkBuildReportFormat env report of
        Inl e \<Rightarrow> (Inl e, s\<lparr>world := w1, trace := trace s @ checksReached config rom 3\<rparr>)
      | Inr u \<Rightarrow>
     (case checkBuildOrderChange report config of
        Inl e \<Rightarrow> (Inl e, s\<lparr>world := w1, trace := trace s @ checksReached config rom 4\<rparr>)
      | Inr u \<Rightarrow>
     (case checkLevels env report config w1 of
        Inl e \<Rightarrow> (Inl e, s\<lparr>world := w1, trace := trace s @ checksReached config rom 5\<rparr>)
      | Inr u \<Rightarrow>
     (case checkRebuildConfigDependencies (dependencies s) config of
        Inl e \<Rightarrow> (Inl e, s\<lparr>world := w1, trace := trace s @ checksReached config rom 6\<rparr>)
      | Inr u \<Rightarrow>
          (Inr (), s\<lparr>world := w1, trace := trace s @ checksReached config rom 7\<rparr>)))))))"
proof -
  have c: "next_do (call env BuilderInit) k (s\<lparr>trace := t\<rparr>) =
      k (s\<lparr>world := w1, trace := t @ [BuilderInit]\<rparr>)" for k :: "('a, unit) action" and t
    using i by (simp add: next_do_def bind_def call_def)
  have g: "next_do (bind (check (\<lambda>s. getOrThrow (output_rom config))) (\<lambda>rom. logMessage (RomFound rom))) k s'
      = k (s'\<lparr>trace := trace s' @ [Log (RomFound rom)]\<rparr>)" for k :: "('a, unit) action" and s'
    using rom by (simp add: next_do_def bind_def check_def getOrThrow_def logMessage_eq)
  have n: "levels config = None \<Longrightarrow> checkLevels env report config w = Inr ()" for w
    by (simp add: checkLevels_def)
  show ?thesis
    unfolding perReportChecks_def
    by (simp add: next_do_logMessage next_do_check next_do_assoc next_do_return_ok c g
        logMessage_eq checksReached_def n split: sum.splits)
qed
lemma build_sequence:
  assumes i: "perform env BuilderInit (world s) = (w1, None)"
    and rom: "output_rom config = Some rom"
  shows "build env config report s =
     (case checkOutputRomExists env config w1 of
        Inl e \<Rightarrow> (Inl e, s\<lparr>world := w1, trace := trace s @ checksReached config rom 1\<rparr>)
      | Inr u \<Rightarrow>
     (case checkRebuildRomSize report config of
        Inl e \<Rightarrow> (Inl e, s\<lparr>world := w1, trace := trace s @ checksReached config rom 2\<rparr>)
      | Inr u \<Rightarrow>
     (case checkBuildReportFormat env report of
        Inl e \<Rightarrow> (Inl e, s\<lparr>world := w1, trace := trace s @ checksReached config rom 3\<rparr>)
      | Inr u \<Rightarrow>
     (case checkBuildOrderChange report config of
        Inl e \<Rightarrow> (Inl e, s\<lparr>world := w1, trace := trace s @ checksReached config rom 4\<rparr>)
      | Inr u \<Rightarrow>
     (case checkLevels env report config w1 of
        Inl e \<Rightarrow> (Inl e, s\<lparr>world := w1, trace := trace s @ checksReached config rom 5\<rparr>)
      | Inr u \<Rightarrow>
     (case checkRebuildConfigDependencies (dependencies s) config of
        Inl e \<Rightarrow> (Inl e, s\<lparr>world := w1, trace := trace s @ checksReached config rom 6\<rparr>)
      | Inr u \<Rightarrow>
          entriesPhase env config report
            (s\<lparr>world := w1, trace := trace s @ checksReached config rom 7\<rparr>)))))))"
  by (simp add: build_def next_do_def [of "perReportChecks env config report"] bind_def
      perReportChecks_sequence [OF i rom] split: sum.splits)

lemma checkOutputRomExists_set:
  "output_rom config = Some rom \<Longrightarrow>
   checkOutputRomExists env config w =
     (if fs_exists env rom w then Inr () else Inl MustRebuildException)"
  by (simp add: checkOutputRomExists_def getOrThrow_def)

lemma checkBuildReportFormat_eq:
  "checkBuildReportFormat env report =
     (if file_format_version report = BUILD_REPORT_VERSION env then Inr ()
      else Inl MustRebuildException)"
  by (simp add: checkBuildReportFormat_def)

lemma checkLevels_error:
  "checkLevels env report config w = Inl e \<longleftrightarrow>
     (\<exists>p. levels config = Some p \<and>
        (if \<not> fs_exists env p w \<or> undeterminedLevel env w p then e = InsertionException
         else e = MustRebuildException
              \<and> (\<exists>l\<in>set (inserted_levels report). l \<notin> currentLevelNumbers env w p)))"
  by (cases "levels config") (auto simp: checkLevels_def checkProblematicLevelChanges_eq)

lemma checksReached_no_entry:
  "eff \<in> set (checksReached config rom n) \<Longrightarrow>
     \<not> isReinsertMessage eff \<and> \<not> isRomCopy eff \<and> \<not> isInsertion eff \<and> \<not> isCommitEffect eff"
  by (auto simp: checksReached_def split: if_splits)

text \<open>
  Claim C4, as stated, fails: a failing check need not raise \<open>MustRebuild\<close>. In the
  scenario without its levels folder the first four checks pass and the level check,
  the first one to fail, raises \<open>InsertionException\<close>, which is what \<open>build\<close> raises.
\<close>

theorem missing_levels_folder_is_not_MustRebuild:
  "checkOutputRomExists (scenario_env [] nothing_fails) scenario_config
      ((scenario_world 1000)(''levels'' := None)) = Inr ()
   \<and> checkRebuildRomSize scenario_report scenario_config = Inr ()
   \<and> checkBuildReportFormat (scenario_env [] nothing_fails) scenario_report = Inr ()
   \<and> checkBuildOrderChange scenario_report scenario_config = Inr ()
   \<and> checkLevels (scenario_env [] nothing_fails) scenario_report scenario_config
        ((scenario_world 1000)(''levels'' := None)) = Inl InsertionException
   \<and> fst (build (scenario_env [] nothing_fails) scenario_config scenario_report
        (initial ((scenario_world 1000)(''levels'' := None)) scenario_dependencies))
       = Inl InsertionException"
proof -
  let ?env = "scenario_env [] nothing_fails"
  let ?w = "(scenario_world 1000)(''levels'' := None)"
  have a: "checkOutputRomExists ?env scenario_config ?w = Inr ()"
    by (simp add: checkOutputRomExists_def getOrThrow_def scenario_env_def scenario_config_def
        scenario_world_def)
  have b: "checkRebuildRomSize scenario_report scenario_config = Inr ()"
    by (simp add: checkRebuildRomSize_eq scenario_report_def scenario_config_def)
  have c: "checkBuildReportFormat ?env scenario_report = Inr ()"
    by (simp add: checkBuildReportFormat_def scenario_env_def scenario_report_def)
  have d: "checkBuildOrderChange scenario_report scenario_config = Inr ()"
    by (simp add: checkBuildOrderChange_eq scenario_report_def scenario_config_def)
  have e: "checkLevels ?env scenario_report scenario_config ?w = Inl InsertionException"
    by (simp add: checkLevels_def checkProblematicLevelChanges_def scenario_env_def
        scenario_config_def)
  have i: "perform ?env BuilderInit (world (initial ?w scenario_dependencies)) = (?w, None)"
    by (simp add: scenario_env_def nothing_fails_def initial_def)
  have r: "output_rom scenario_config = Some ''hack.smc''"
    by (simp add: scenario_config_def)
  have f: "fst (build ?env scenario_config scenario_report (initial ?w scenario_dependencies))
       = Inl InsertionException"
    by (simp add: build_sequence [OF i r] a b c d e)
  from a b c d e f show ?thesis by (intro conjI)
qed

text \<open>
  Claim C4, amended. With \<open>output_rom\<close> and \<open>rom_size\<close> set, \<open>build\<close> runs the per-report
  checks in exactly this order: the ROM of the previous build exists, the configured
  \<open>rom_size\<close> is the report's, \<open>file_format_version\<close> is the constant of the engine,
  \<open>build_order\<close> is the report's, the level check (run only when a levels folder is
  configured), then the configuration dependencies of policy \<open>Rebuild\<close> of all entries.
  The first check that fails raises its exception, and the trace is then
  \<open>checksReached\<close> at the number of that check: the log holds the messages of the checks
  before it, in this order, each announced and passed, and the announcement of the
  failing check, and nothing else was called but \<open>init\<close>; so no entry was classified,
  the ROM was not copied, nothing was inserted and nothing was committed. The
  exception is \<open>MustRebuild\<close>, except that the level check raises \<open>InsertionException\<close>
  when the folder is missing or a level number cannot be determined. When all the checks
  pass the entries are processed.
\<close>

theorem per_report_checks_in_order:
  "(perform env BuilderInit w = (w1, None) \<longrightarrow>
    output_rom config = Some rom \<longrightarrow>
    rom_size config = Some configured \<longrightarrow>
    build env config report (initial w deps) =
      (if \<not> fs_exists env rom w1
       then (Inl MustRebuildException,
             (initial w deps)\<lparr>world := w1, trace := checksReached config rom 1\<rparr>)
       else if report_rom_size report \<noteq> Some configured
       then (Inl MustRebuildException,
             (initial w deps)\<lparr>world := w1, trace := checksReached config rom 2\<rparr>)
       else if file_format_version report \<noteq> BUILD_REPORT_VERSION env
       then (Inl MustRebuildException,
             (initial w deps)\<lparr>world := w1, trace := checksReached config rom 3\<rparr>)
       else if build_order config \<noteq> report_build_order report
       then (Inl MustRebuildException,
             (initial w deps)\<lparr>world := w1, trace := checksReached config rom 4\<rparr>)
       else
         (case checkLevels env report config w1 of
            Inl e \<Rightarrow>
              (Inl e, (initial w deps)\<lparr>world := w1, trace := checksReached config rom 5\<rparr>)
          | Inr u \<Rightarrow>
              if \<exists>e\<in>set deps. \<exists>d\<in>set (configuration_dependencies e).
                   rebuildConfigMismatch config d
              then (Inl MustRebuildException,
                    (initial w deps)\<lparr>world := w1, trace := checksReached config rom 6\<rparr>)
              else entriesPhase env config report
                    ((initial w deps)\<lparr>world := w1, trace := checksReached config rom 7\<rparr>))))
   \<and> (checkLevels env report config w1 = Inl e \<longleftrightarrow>
        (\<exists>p. levels config = Some p \<and>
          (if \<not> fs_exists env p w1 \<or> undeterminedLevel env w1 p then e = InsertionException
           else e = MustRebuildException
                \<and> (\<exists>l\<in>set (inserted_levels report). l \<notin> currentLevelNumbers env w1 p))))
   \<and> checksReached config rom 1 =
       [Log QuickBuildStarted, BuilderInit, Log CheckingRomExists]
   \<and> checksReached config rom 2 =
       checksReached config rom 1 @ [Log (RomFound rom), Log CheckingRomSize]
   \<and> checksReached config rom 3 =
       checksReached config rom 2 @ [Log RomSizeUnchanged, Log CheckingReportFormat]
   \<and> checksReached config rom 4 =
       checksReached config rom 3 @ [Log ReportFormatUnchanged, Log CheckingBuildOrder]
   \<and> checksReached config rom 5 =
       checksReached config rom 4 @ [Log BuildOrderUnchanged]
       @ (if levels config \<noteq> None then [Log CheckingLevels] else [])
   \<and> checksReached config rom 6 =
       checksReached config rom 5
       @ (if levels config \<noteq> None then [Log LevelsUnchanged] else [])
       @ [Log CheckingConfiguration]
   \<and> checksReached config rom 7 =
       checksReached config rom 6 @ [Log ConfigurationUnchanged]
   \<and> (\<forall>n. \<forall>eff\<in>set (checksReached config rom n).
         \<not> isReinsertMessage eff \<and> \<not> isRomCopy eff \<and> \<not> isInsertion eff
         \<and> \<not> isCommitEffect eff)"
proof -
  have a: "perform env BuilderInit w = (w1, None) \<longrightarrow>
    output_rom config = Some rom \<longrightarrow>
    rom_size config = Some configured \<longrightarrow>
    build env config report (initial w deps) =
      (if \<not> fs_exists env rom w1
       then (Inl MustRebuildException,
             (initial w deps)\<lparr>world := w1, trace := checksReached config rom 1\<rparr>)
       else if report_rom_size report \<noteq> Some configured
       then (Inl MustRebuildException,
             (initial w deps)\<lparr>world := w1, trace := checksReached config rom 2\<rparr>)
       else if file_format_version report \<noteq> BUILD_REPORT_VERSION env
       then (Inl MustRebuildException,
             (initial w deps)\<lparr>world := w1, trace := checksReached config rom 3\<rparr>)
       else if build_order config \<noteq> report_build_order report
       then (Inl MustRebuildException,
             (initial w deps)\<lparr>world := w1, trace := checksReached config rom 4\<rparr>)
       else
         (case checkLevels env report config w1 of
            Inl e \<Rightarrow>
              (Inl e, (initial w deps)\<lparr>world := w1, trace := checksReached config rom 5\<rparr>)
          | Inr u \<Rightarrow>
              if \<exists>e\<in>set deps. \<exists>d\<in>set (configuration_dependencies e).
                   rebuildConfigMismatch config d
              then (Inl MustRebuildException,
                    (initial w deps)\<lparr>world := w1, trace := checksReached config rom 6\<rparr>)
              else entriesPhase env config report
                    ((initial w deps)\<lparr>world := w1, trace := checksReached config rom 7\<rparr>)))"
  proof (intro impI)
    assume i: "perform env BuilderInit w = (w1, None)"
      and rom: "output_rom config = Some rom"
      and size: "rom_size config = Some configured"
    from i have i': "perform env BuilderInit (world (initial w deps)) = (w1, None)"
      by (simp add: initial_def)
    have d: "dependencies (initial w deps) = deps" "trace (initial w deps) = []"
      by (simp_all add: initial_def)
    show "build env config report (initial w deps) =
      (if \<not> fs_exists env rom w1
       then (Inl MustRebuildException,
             (initial w deps)\<lparr>world := w1, trace := checksReached config rom 1\<rparr>)
       else if report_rom_size report \<noteq> Some configured
       then (Inl MustRebuildException,
             (initial w deps)\<lparr>world := w1, trace := checksReached config rom 2\<rparr>)
       else if file_format_version report \<noteq> BUILD_REPORT_VERSION env
       then (Inl MustRebuildException,
             (initial w deps)\<lparr>world := w1, trace := checksReached config rom 3\<rparr>)
       else if build_order config \<noteq> report_build_order report
       then (Inl MustRebuildException,
             (initial w deps)\<lparr>world := w1, trace := checksReached config rom 4\<rparr>)
       else
         (case checkLevels env report config w1 of
            Inl e \<Rightarrow>
              (Inl e, (initial w deps)\<lparr>world := w1, trace := checksReached config rom 5\<rparr>)
          | Inr u \<Rightarrow>
              if \<exists>e\<in>set deps. \<exists>d\<in>set (configuration_dependencies e).
                   rebuildConfigMismatch config d
              then (Inl MustRebuildException,
                    (initial w deps)\<lparr>world := w1, trace := checksReached config rom 6\<rparr>)
              else entriesPhase env config report
                    ((initial w deps)\<lparr>world := w1, trace := checksReached config rom 7\<rparr>)))"
      unfolding build_sequence [OF i' rom] d append_Nil
      by (simp add: checkOutputRomExists_set [OF rom] checkRebuildRomSize_eq size
          checkBuildReportFormat_eq checkBuildOrderChange_eq checkRebuildConfigDependencies_eq
          split: sum.splits)
  qed
  have c: "checksReached config rom 1 =
       [Log QuickBuildStarted, BuilderInit, Log CheckingRomExists]"
    "checksReached config rom 2 =
       checksReached config rom 1 @ [Log (RomFound rom), Log CheckingRomSize]"
    "checksReached config rom 3 =
       checksReached config rom 2 @ [Log RomSizeUnchanged, Log CheckingReportFormat]"
    "checksReached config rom 4 =
       checksReached config rom 3 @ [Log ReportFormatUnchanged, Log CheckingBuildOrder]"
    "checksReached config rom 5 =
       checksReached config rom 4 @ [Log BuildOrderUnchanged]
       @ (if levels config \<noteq> None then [Log CheckingLevels] else [])"
    "checksReached config rom 6 =
       checksReached config rom 5
       @ (if levels config \<noteq> None then [Log LevelsUnchanged] else [])
       @ [Log CheckingConfiguration]"
    "checksReached config rom 7 =
       checksReached config rom 6 @ [Log ConfigurationUnchanged]"
    by (simp_all add: checksReached_def)
  have n: "\<forall>n. \<forall>eff\<in>set (checksReached config rom n).
         \<not> isReinsertMessage eff \<and> \<not> isRomCopy eff \<and> \<not> isInsertion eff
         \<and> \<not> isCommitEffect eff"
    using checksReached_no_entry by blast
  from a checkLevels_error [of env report config w1 e] c n show ?thesis
    by (intro conjI)
qed
theorem per_report_checks_in_order_witness:
  "build (scenario_env [] nothing_fails)
      (scenario_config\<lparr>rom_size := Some 8388608, build_order := []\<rparr>)
      scenario_report (initial (scenario_world 1000) scenario_dependencies)
     = (Inl MustRebuildException,
        (initial (scenario_world 1000) scenario_dependencies)
          \<lparr>world := scenario_world 1000,
           trace := [Log QuickBuildStarted, BuilderInit, Log CheckingRomExists,
                     Log (RomFound ''hack.smc''), Log CheckingRomSize]\<rparr>)"
proof -
  let ?env = "scenario_env [] nothing_fails"
  let ?config = "scenario_config\<lparr>rom_size := Some 8388608, build_order := []\<rparr>"
  let ?w = "scenario_world 1000"
  have h1: "perform ?env BuilderInit ?w = (?w, None)"
    by (simp add: scenario_env_def nothing_fails_def)
  have h2: "output_rom ?config = Some ''hack.smc''"
    by (simp add: scenario_config_def)
  have h3: "rom_size ?config = Some 8388608"
    by simp
  have e: "fs_exists ?env ''hack.smc'' ?w" "report_rom_size scenario_report \<noteq> Some 8388608"
    by (simp_all add: scenario_env_def scenario_world_def scenario_report_def)
  note t = per_report_checks_in_order [where env = ?env and config = ?config and w = ?w
      and report = scenario_report and deps = scenario_dependencies and rom = "''hack.smc''"]
  from t [THEN conjunct1, rule_format, OF h1 h2 h3] e
    t [THEN conjunct2, THEN conjunct2, THEN conjunct1]
    t [THEN conjunct2, THEN conjunct2, THEN conjunct2, THEN conjunct1]
  show ?thesis by simp
qed

subsection \<open>Work done and the commit\<close>

lemma local_only_any_work_done: "local_only any_work_done"
  by (simp add: local_only_def)

lemma local_only_unit: "local_only (\<lambda>s. ())"
  by (simp add: local_only_def)

lemma frameD:
  assumes "frame A f s s'"
  obtains t where "f s' = f s" and "trace s' = trace s @ t" and "list_all A t"
  using assms by (auto simp: frame_def)

lemma call_eq:
  "call env eff s =
     (case snd (perform env eff (world s)) of Some e \<Rightarrow> Inl e | None \<Rightarrow> Inr (),
      s\<lparr>world := fst (perform env eff (world s)), trace := trace s @ [eff]\<rparr>)"
  by (simp add: call_def split: prod.splits)

lemma copyRomOnce_eq:
  "copyRomOnce env config temporary_rom_path s =
     (if any_work_done s then (Inr (), s)
      else
        (case output_rom config of
           None \<Rightarrow> (Inl ConfigException, s\<lparr>any_work_done := True\<rparr>)
         | Some rom \<Rightarrow> call env (FsCopy rom temporary_rom_path) (s\<lparr>any_work_done := True\<rparr>)))"
  by (simp add: copyRomOnce_def bind_def next_do_def get_def modify_def check_def
      return_ok_def getOrThrow_def split: option.splits)

lemma copyRomOnce_returned:
  assumes "copyRomOnce env config temporary_rom_path s = (Inr (), s')"
  shows "any_work_done s'"
    and "\<exists>t. trace s' = trace s @ t \<and> (any_work_done s \<or> (\<exists>eff\<in>set t. isRomCopy eff))"
proof -
  show "any_work_done s'"
    using assms by (cases "any_work_done s"; cases "output_rom config")
      (auto simp: copyRomOnce_eq call_eq)
  show "\<exists>t. trace s' = trace s @ t \<and> (any_work_done s \<or> (\<exists>eff\<in>set t. isRomCopy eff))"
    using assms by (cases "any_work_done s"; cases "output_rom config")
      (auto simp: copyRomOnce_eq call_eq)
qed

lemma insertEntry_eq:
  "insertEntry env i d s =
     (case failed_dependency_report s of
        Some x \<Rightarrow> call env (Insert d) s
      | None \<Rightarrow>
          (let s1 = s\<lparr>world := fst (perform env (InsertWithDependencies d) (world s)),
                      trace := trace s @ [InsertWithDependencies d]\<rparr>
           in case snd (perform env (InsertWithDependencies d) (world s)) of
                None \<Rightarrow>
                  (Inr (), s1\<lparr>dependencies := (dependencies s1)
                     [i := (dependencies s1 ! i)
                        \<lparr>configuration_dependencies :=
                           getConfigurationDependencies env d (world s1),
                         resource_dependencies := reportedDependencies env d (world s1)\<rparr>]\<rparr>)
              | Some e \<Rightarrow>
                  if e = NoDependencyReportFound
                  then (Inr (), s1\<lparr>failed_dependency_report := Some e\<rparr>)
                  else (Inl e, s1)))"
proof (cases "failed_dependency_report s")
  case (Some x)
  then show ?thesis
    by (simp add: insertEntry_def bind_def get_def)
next
  case None
  show ?thesis
  proof (cases "snd (perform env (InsertWithDependencies d) (world s))")
    case n: None
    with None show ?thesis
      by (simp add: insertEntry_def tryInsertWithDependencies_def bind_def next_do_def get_def
          modify_def call_eq Let_def)
  next
    case (Some e)
    with None show ?thesis
      by (simp add: insertEntry_def tryInsertWithDependencies_def bind_def next_do_def get_def
          modify_def return_ok_def call_eq Let_def)
  qed
qed

lemma insertEntry_returned:
  assumes "insertEntry env i d s = (Inr (), s')"
  shows "any_work_done s' = any_work_done s"
    and "\<exists>eff. trace s' = trace s @ [eff] \<and> isInsertion eff"
proof -
  show "any_work_done s' = any_work_done s"
    using assms
    by (cases "failed_dependency_report s";
        cases "snd (perform env (InsertWithDependencies d) (world s))")
       (auto simp: insertEntry_eq call_eq Let_def split: if_splits option.splits)
  show "\<exists>eff. trace s' = trace s @ [eff] \<and> isInsertion eff"
    using assms
    by (cases "failed_dependency_report s";
        cases "snd (perform env (InsertWithDependencies d) (world s))")
       (auto simp: insertEntry_eq call_eq Let_def split: if_splits option.splits)
qed


lemma insertionSteps_returned:
  assumes run: "insertionSteps env temporary_rom_path root i d s = (Inr (), s')"
  shows "any_work_done s' = any_work_done s"
    and "\<exists>t. trace s' = trace s @ t \<and> (\<exists>eff\<in>set t. isInsertion eff)"
proof -
  let ?R = "frame (\<lambda>eff. True) any_work_done"
  let ?P = "\<lambda>s::'a State. True"
  note l = local_only_any_work_done local_only_True
  have c2: "preserves ?P ?R (if symbol d = MODULE
              then bind (check (\<lambda>s. name_value d)) (\<lambda>module_name.
                     cleanModule env module_name temporary_rom_path root)
              else return_ok ())"
    by (intro preserves_rules preserves_cleanModule l) simp_all
  have c3: "preserves ?P ?R (call env eff)" for eff
    by (rule preserves_call [OF _ l]) simp
  have c5: "preserves ?P ?R (validateHijacks env i d)"
    by (rule preserves_validateHijacks) simp
  from run obtain s2 where s2: "?R s s2"
    and r2: "next_do (call env (DescriptorToInsertable d))
              (next_do (call env (InsertableInit d))
              (next_do (insertEntry env i d) (validateHijacks env i d))) s2 = (Inr (), s')"
    unfolding insertionSteps_def by (rule next_do_returned [OF _ c2]) simp_all
  from r2 obtain s3 where s3: "?R s2 s3"
    and r3: "next_do (call env (InsertableInit d))
              (next_do (insertEntry env i d) (validateHijacks env i d)) s3 = (Inr (), s')"
    by (rule next_do_returned [OF _ c3]) simp_all
  from r3 obtain s4 where s4: "?R s3 s4"
    and r4: "next_do (insertEntry env i d) (validateHijacks env i d) s4 = (Inr (), s')"
    by (rule next_do_returned [OF _ c3]) simp_all
  from r4 obtain s5 where i5: "insertEntry env i d s4 = (Inr (), s5)"
    and r5: "validateHijacks env i d s5 = (Inr (), s')"
    by (rule next_do_cases) simp_all
  from preservesD(1) [OF c5 _ r5] have s6: "?R s5 s'" by simp
  from s2 s3 s4 have b: "?R s s4" by (blast intro: frame_trans)
  from b obtain t1 where t1: "any_work_done s4 = any_work_done s" "trace s4 = trace s @ t1"
    by (rule frameD)
  from insertEntry_returned [OF i5] obtain eff where
    e: "any_work_done s5 = any_work_done s4" "trace s5 = trace s4 @ [eff]" "isInsertion eff"
    by blast
  from s6 obtain t2 where t2: "any_work_done s' = any_work_done s5" "trace s' = trace s5 @ t2"
    by (rule frameD)
  from t1 e t2 show "any_work_done s' = any_work_done s"
    by simp
  from t1 e t2 have "trace s' = trace s @ (t1 @ eff # t2)" by simp
  with e(3) show "\<exists>t. trace s' = trace s @ t \<and> (\<exists>eff\<in>set t. isInsertion eff)"
    by (intro exI [of _ "t1 @ eff # t2"]) simp
qed

lemma reinsert_returned:
  assumes run: "reinsert env config temporary_rom_path root i d s = (Inr (), s')"
  shows "any_work_done s'"
    and "\<exists>t. trace s' = trace s @ t
          \<and> (any_work_done s \<or> (\<exists>eff\<in>set t. isRomCopy eff))
          \<and> (\<exists>eff\<in>set t. isInsertion eff)"
proof -
  from run obtain s1 where c: "copyRomOnce env config temporary_rom_path s = (Inr (), s1)"
    and r: "insertionSteps env temporary_rom_path root i d s1 = (Inr (), s')"
    unfolding reinsert_def by (rule next_do_cases) simp_all
  from copyRomOnce_returned [OF c] obtain t1 where
    t1: "any_work_done s1" "trace s1 = trace s @ t1"
      "any_work_done s \<or> (\<exists>eff\<in>set t1. isRomCopy eff)"
    by blast
  from insertionSteps_returned [OF r] obtain t2 where
    t2: "any_work_done s' = any_work_done s1" "trace s' = trace s1 @ t2"
      "\<exists>eff\<in>set t2. isInsertion eff"
    by blast
  from t1 t2 show "any_work_done s'" by simp
  from t1 t2 have "trace s' = trace s @ (t1 @ t2)" by simp
  with t1(3) t2(3) show "\<exists>t. trace s' = trace s @ t
          \<and> (any_work_done s \<or> (\<exists>eff\<in>set t. isRomCopy eff))
          \<and> (\<exists>eff\<in>set t. isInsertion eff)"
    by (intro exI [of _ "t1 @ t2"]) auto
qed

lemma keep_frame:
  "preserves (\<lambda>s. True)
     (frame (\<lambda>eff. \<not> isReinsertMessage eff \<and> \<not> isRomCopy eff \<and> \<not> isInsertion eff)
        any_work_done)
     (keep env report root d)"
  by (rule preserves_keep [OF local_only_any_work_done local_only_True]) simp_all

lemma workRecorded_frame:
  assumes "workRecorded s"
    and "frame (\<lambda>eff. \<not> isReinsertMessage eff \<and> \<not> isRomCopy eff \<and> \<not> isInsertion eff)
           any_work_done s s'"
  shows "workRecorded s'"
proof -
  from assms(2) obtain t where t: "any_work_done s' = any_work_done s"
    "trace s' = trace s @ t"
    "list_all (\<lambda>eff. \<not> isReinsertMessage eff \<and> \<not> isRomCopy eff \<and> \<not> isInsertion eff) t"
    by (rule frameD)
  from t(3) have "\<not> (\<exists>eff\<in>set t. isReinsertMessage eff)" "\<not> (\<exists>eff\<in>set t. isRomCopy eff)"
    "\<not> (\<exists>eff\<in>set t. isInsertion eff)"
    by (auto simp: list_all_iff)
  with assms(1) t(1,2) show ?thesis
    by (auto simp: workRecorded_def)
qed

lemma classify_True:
  assumes "classify env config entry s = (Inr True, s0)"
  shows "\<exists>m. isReinsertMessage m \<and> s0 = s\<lparr>trace := trace s @ [m]\<rparr>"
proof (cases "find (reinsertConfigMismatch config) (configuration_dependencies entry)")
  case (Some c)
  with assms have "s0 = s\<lparr>trace := trace s @
      [Log (MustBeReinsertedDueToConfig (descriptor entry) (config_keys c))]\<rparr>"
    by (simp add: classify_eq)
  then show ?thesis
    by (intro exI [of _ "Log (MustBeReinsertedDueToConfig (descriptor entry) (config_keys c))"])
       simp
next
  case None
  show ?thesis
  proof (cases "find (reinsertResourceMismatch env (world s)) (resource_dependencies entry)")
    case n: None
    with None assms show ?thesis by (simp add: classify_eq)
  next
    case (Some r)
    with None assms have "s0 = s\<lparr>trace := trace s @
        [Log (MustBeReinsertedDueToResource (descriptor entry) (dependent_path r))]\<rparr>"
      by (simp add: classify_eq)
    then show ?thesis
      by (intro exI [of _ "Log (MustBeReinsertedDueToResource (descriptor entry)
            (dependent_path r))"]) simp
  qed
qed

lemma classify_False:
  assumes "classify env config entry s = (Inr False, s0)"
  shows "s0 = s"
  using assms by (auto simp: classify_eq split: option.splits)

lemma processEntry_workRecorded:
  assumes k: "workRecorded s"
    and run: "processEntry env config report temporary_rom_path i s = (Inr (), s')"
  shows "workRecorded s'"
proof -
  from run obtain root where root: "project_root config = Some root"
    by (cases "project_root config")
       (auto simp: processEntry_def bind_def check_def getOrThrow_def)
  from run root have chk: "checkRebuildResourceDependencies env (world s) (dependencies s) i = Inr ()"
    by (cases "checkRebuildResourceDependencies env (world s) (dependencies s) i")
       (auto simp: processEntry_def bind_def next_do_def check_def getOrThrow_def)
  let ?entry = "dependencies s ! i"
  note run' = run [unfolded processEntry_classified [OF root chk]]
  from run' obtain must s0 where c: "classify env config ?entry s = (Inr must, s0)"
    and rest: "(if must then reinsert env config temporary_rom_path root i (descriptor ?entry)
                else keep env report root (descriptor ?entry)) s0 = (Inr (), s')"
    by (rule bind_cases) simp_all
  show ?thesis
  proof (cases must)
    case False
    with c have "s0 = s"
      by (auto dest: classify_False)
    with rest False have "keep env report root (descriptor ?entry) s = (Inr (), s')"
      by simp
    from preservesD(1) [OF keep_frame _ this] k show ?thesis
      by (auto intro: workRecorded_frame)
  next
    case True
    with c obtain m where m: "isReinsertMessage m" "s0 = s\<lparr>trace := trace s @ [m]\<rparr>"
      by (auto dest: classify_True)
    from rest True have "reinsert env config temporary_rom_path root i (descriptor ?entry) s0
        = (Inr (), s')"
      by simp
    from reinsert_returned [OF this] obtain t where
      t: "any_work_done s'" "trace s' = trace s0 @ t"
        "any_work_done s0 \<or> (\<exists>eff\<in>set t. isRomCopy eff)" "\<exists>eff\<in>set t. isInsertion eff"
      by blast
    from m t k show ?thesis
      by (auto simp: workRecorded_def)
  qed
qed

lemma entryLoop_workRecorded:
  "workRecorded s \<Longrightarrow>
   entryLoop env config report temporary_rom_path indices s = (Inr (), s') \<Longrightarrow>
   workRecorded s'"
proof (induction indices arbitrary: s)
  case Nil
  then show ?case by (simp add: return_ok_def)
next
  case (Cons i indices)
  from Cons.prems(2) obtain s1 where
    p: "processEntry env config report temporary_rom_path i s = (Inr (), s1)"
    and l: "entryLoop env config report temporary_rom_path indices s1 = (Inr (), s')"
    unfolding entryLoop.simps by (rule next_do_cases) simp_all
  from processEntry_workRecorded [OF Cons.prems(1) p] l show ?case
    by (rule Cons.IH)
qed

lemma call_next:
  assumes "next_do (call env eff) m s = (Inr r, s')"
  obtains s1 where "trace s1 = trace s @ [eff]" and "m s1 = (Inr r, s')"
proof -
  from assms obtain s1 where c: "call env eff s = (Inr (), s1)" and m: "m s1 = (Inr r, s')"
    by (rule next_do_cases) simp_all
  from c have "trace s1 = trace s @ [eff]"
    by (auto simp: call_eq)
  then show ?thesis using m by (rule that)
qed

lemma bind_get: "bind (get f) k s = k (f s) s"
  by (simp add: bind_def get_def)

lemma check_returned:
  assumes "next_do (check c) m s = (Inr r, s')"
  shows "m s = (Inr r, s')"
  using assms by (rule next_do_cases) (auto simp: check_def)

lemma commit_no_work: "\<not> any_work_done s \<Longrightarrow> commit env config temporary_rom_path s = (Inr NO_WORK, s)"
  by (simp add: commit_def bind_def get_def return_ok_def)

lemma commit_frame:
  "preserves (\<lambda>s. True)
     (frame (\<lambda>eff. \<not> isReinsertMessage eff \<and> \<not> isRomCopy eff \<and> \<not> isInsertion eff)
        (\<lambda>s. (failed_dependency_report s, dependencies s)))
     (commit env config temporary_rom_path)"
proof -
  have l: "local_only (\<lambda>s::'a State. (failed_dependency_report s, dependencies s))"
    by (simp add: local_only_def)
  show ?thesis
    unfolding commit_def
    by (intro preserves_rules preserves_call preserves_logMessage l local_only_True) simp_all
qed

lemma commit_work_done:
  assumes w: "any_work_done s"
    and run: "commit env config temporary_rom_path s = (Inr result, s')"
  shows "result = SUCCESS"
    and "\<exists>folder. trace s' = trace s @
           (if failed_dependency_report s = None then [WriteBuildReport (dependencies s)]
            else [Log QuickbuildNotApplicable, RemoveBuildReport]) @
           [CacheModules, WriteMarkerToRom temporary_rom_path, MoveTempToOutput,
            LinkOutputRomToProjectGraphics False, LinkOutputRomToProjectGraphics True,
            FsRemoveAll folder]"
proof -
  let ?report = "if failed_dependency_report s = None then [WriteBuildReport (dependencies s)]
            else [Log QuickbuildNotApplicable, RemoveBuildReport]"
  from w run have r0: "next_do (bind (get failed_dependency_report) (\<lambda>failed.
            if failed = None
            then bind (get dependencies) (\<lambda>deps. call env (WriteBuildReport deps))
            else next_do (logMessage QuickbuildNotApplicable) (call env RemoveBuildReport)))
        (next_do (call env CacheModules)
        (next_do (call env (WriteMarkerToRom temporary_rom_path))
        (next_do (call env MoveTempToOutput)
        (next_do (call env (LinkOutputRomToProjectGraphics False))
        (next_do (call env (LinkOutputRomToProjectGraphics True))
        (next_do (bind (check (\<lambda>s. getOrThrow (temporary_folder config))) (\<lambda>tmp.
                    call env (FsRemoveAll tmp)))
        (return_ok SUCCESS))))))) s = (Inr result, s')"
    by (simp add: commit_def bind_get)
  from r0 obtain s1 where a1: "bind (get failed_dependency_report) (\<lambda>failed.
            if failed = None
            then bind (get dependencies) (\<lambda>deps. call env (WriteBuildReport deps))
            else next_do (logMessage QuickbuildNotApplicable) (call env RemoveBuildReport)) s
          = (Inr (), s1)"
    and r1: "next_do (call env CacheModules)
        (next_do (call env (WriteMarkerToRom temporary_rom_path))
        (next_do (call env MoveTempToOutput)
        (next_do (call env (LinkOutputRomToProjectGraphics False))
        (next_do (call env (LinkOutputRomToProjectGraphics True))
        (next_do (bind (check (\<lambda>s. getOrThrow (temporary_folder config))) (\<lambda>tmp.
                    call env (FsRemoveAll tmp)))
        (return_ok SUCCESS)))))) s1 = (Inr result, s')"
    by (rule next_do_cases) simp_all
  from a1 have t1: "trace s1 = trace s @ ?report"
    by (cases "failed_dependency_report s")
       (auto simp: bind_def get_def next_do_def logMessage_def modify_def call_eq
          split: option.splits)
  from r1 obtain s2 where t2: "trace s2 = trace s1 @ [CacheModules]"
    and r2: "next_do (call env (WriteMarkerToRom temporary_rom_path))
        (next_do (call env MoveTempToOutput)
        (next_do (call env (LinkOutputRomToProjectGraphics False))
        (next_do (call env (LinkOutputRomToProjectGraphics True))
        (next_do (bind (check (\<lambda>s. getOrThrow (temporary_folder config))) (\<lambda>tmp.
                    call env (FsRemoveAll tmp)))
        (return_ok SUCCESS))))) s2 = (Inr result, s')"
    by (rule call_next)
  from r2 obtain s3 where t3: "trace s3 = trace s2 @ [WriteMarkerToRom temporary_rom_path]"
    and r3: "next_do (call env MoveTempToOutput)
        (next_do (call env (LinkOutputRomToProjectGraphics False))
        (next_do (call env (LinkOutputRomToProjectGraphics True))
        (next_do (bind (check (\<lambda>s. getOrThrow (temporary_folder config))) (\<lambda>tmp.
                    call env (FsRemoveAll tmp)))
        (return_ok SUCCESS)))) s3 = (Inr result, s')"
    by (rule call_next)
  from r3 obtain s4 where t4: "trace s4 = trace s3 @ [MoveTempToOutput]"
    and r4: "next_do (call env (LinkOutputRomToProjectGraphics False))
        (next_do (call env (LinkOutputRomToProjectGraphics True))
        (next_do (bind (check (\<lambda>s. getOrThrow (temporary_folder config))) (\<lambda>tmp.
                    call env (FsRemoveAll tmp)))
        (return_ok SUCCESS))) s4 = (Inr result, s')"
    by (rule call_next)
  from r4 obtain s5 where t5: "trace s5 = trace s4 @ [LinkOutputRomToProjectGraphics False]"
    and r5: "next_do (call env (LinkOutputRomToProjectGraphics True))
        (next_do (bind (check (\<lambda>s. getOrThrow (temporary_folder config))) (\<lambda>tmp.
                    call env (FsRemoveAll tmp)))
        (return_ok SUCCESS)) s5 = (Inr result, s')"
    by (rule call_next)
  from r5 obtain s6 where t6: "trace s6 = trace s5 @ [LinkOutputRomToProjectGraphics True]"
    and r6: "next_do (bind (check (\<lambda>s. getOrThrow (temporary_folder config))) (\<lambda>tmp.
                    call env (FsRemoveAll tmp)))
        (return_ok SUCCESS) s6 = (Inr result, s')"
    by (rule call_next)
  from r6 obtain s7 where a7: "bind (check (\<lambda>s. getOrThrow (temporary_folder config)))
        (\<lambda>tmp. call env (FsRemoveAll tmp)) s6 = (Inr (), s7)"
    and r7: "return_ok SUCCESS s7 = (Inr result, s')"
    by (rule next_do_cases) simp_all
  from a7 obtain folder where t7: "trace s7 = trace s6 @ [FsRemoveAll folder]"
    by (cases "temporary_folder config")
       (auto simp: bind_def check_def getOrThrow_def call_eq)
  from r7 have e: "result = SUCCESS" "s' = s7"
    by (simp_all add: return_ok_def)
  from e show "result = SUCCESS" by simp
  from e t1 t2 t3 t4 t5 t6 t7
  show "\<exists>folder. trace s' = trace s @ ?report @
           [CacheModules, WriteMarkerToRom temporary_rom_path, MoveTempToOutput,
            LinkOutputRomToProjectGraphics False, LinkOutputRomToProjectGraphics True,
            FsRemoveAll folder]"
    by (intro exI [of _ folder]) simp
qed

lemma insertEntry_no_commit:
  "preserves (\<lambda>s. True) (frame (\<lambda>eff. \<not> isCommitEffect eff) (\<lambda>s. ())) (insertEntry env i d)"
  by (rule preserves_insertEntry [OF local_only_unit local_only_True])
     (simp_all, case_tac eff, simp_all)

lemma entryEffect_no_commit: "entryEffect eff \<Longrightarrow> \<not> isCommitEffect eff"
  by (cases eff) simp_all

lemma entryLoop_no_commit:
  "preserves (\<lambda>s. True) (frame (\<lambda>eff. \<not> isCommitEffect eff) (\<lambda>s. ()))
     (entryLoop env config report temporary_rom_path indices)"
  by (rule preserves_entryLoop [OF local_only_unit local_only_True])
     (simp_all add: entryEffect_no_commit insertEntry_no_commit)

lemma entriesPhase_returned:
  assumes run: "entriesPhase env config report s1 = (Inr result, s')"
    and clean: "\<forall>eff\<in>set (trace s1). \<not> isReinsertMessage eff \<and> \<not> isRomCopy eff
        \<and> \<not> isInsertion eff \<and> \<not> isCommitEffect eff"
  obtains temporary_rom_path s3 where "workRecorded s3"
    and "\<forall>eff\<in>set (trace s3). \<not> isCommitEffect eff"
    and "commit env config temporary_rom_path s3 = (Inr result, s')"
proof -
  from run obtain tmp s1' where c: "check (\<lambda>s. temporaryRomPath env config) s1 = (Inr tmp, s1')"
    and r1: "next_do (modify (\<lambda>s. s\<lparr>any_work_done := False, failed_dependency_report := None\<rparr>))
      (next_do (bind (get (\<lambda>s. length (dependencies s))) (\<lambda>n.
                entryLoop env config report tmp [0..<n]))
      (commit env config tmp)) s1' = (Inr result, s')"
    unfolding entriesPhase_def by (rule bind_cases) simp_all
  from c have [simp]: "s1' = s1" by (simp add: check_def)
  let ?s2 = "s1\<lparr>any_work_done := False, failed_dependency_report := None\<rparr>"
  from r1 have r2: "next_do (bind (get (\<lambda>s. length (dependencies s))) (\<lambda>n.
                entryLoop env config report tmp [0..<n]))
      (commit env config tmp) ?s2 = (Inr result, s')"
    by (rule next_do_cases) (auto simp: modify_def)
  from r2 obtain s3 where l: "entryLoop env config report tmp [0..<length (dependencies ?s2)] ?s2
      = (Inr (), s3)"
    and r3: "commit env config tmp s3 = (Inr result, s')"
    by (rule next_do_cases) (simp_all add: bind_get)
  from clean have k2: "workRecorded ?s2"
    by (auto simp: workRecorded_def)
  from k2 l have k3: "workRecorded s3"
    by (rule entryLoop_workRecorded)
  from preservesD(1) [OF entryLoop_no_commit _ l] obtain t where
    t: "trace s3 = trace ?s2 @ t" "list_all (\<lambda>eff. \<not> isCommitEffect eff) t"
    by (auto elim: frameD)
  with clean have n3: "\<forall>eff\<in>set (trace s3). \<not> isCommitEffect eff"
    by (auto simp: list_all_iff)
  from k3 n3 r3 show ?thesis by (rule that)
qed

lemma perReportChecks_frame:
  "preserves (\<lambda>s. True)
     (frame (\<lambda>eff. \<not> isReinsertMessage eff \<and> \<not> isRomCopy eff \<and> \<not> isInsertion eff
               \<and> \<not> isCommitEffect eff) (\<lambda>s. ()))
     (perReportChecks env config report)"
  unfolding perReportChecks_def
  by (intro preserves_rules preserves_call preserves_logMessage local_only_unit local_only_True)
     simp_all

lemma perReportChecks_clean:
  assumes "perReportChecks env config report s = (r, s1)"
    and "\<forall>eff\<in>set (trace s). \<not> isReinsertMessage eff \<and> \<not> isRomCopy eff
        \<and> \<not> isInsertion eff \<and> \<not> isCommitEffect eff"
  shows "\<forall>eff\<in>set (trace s1). \<not> isReinsertMessage eff \<and> \<not> isRomCopy eff
        \<and> \<not> isInsertion eff \<and> \<not> isCommitEffect eff"
proof -
  from preservesD(1) [OF perReportChecks_frame _ assms(1)] obtain t where
    "trace s1 = trace s @ t"
    "list_all (\<lambda>eff. \<not> isReinsertMessage eff \<and> \<not> isRomCopy eff \<and> \<not> isInsertion eff
               \<and> \<not> isCommitEffect eff) t"
    by (auto elim: frameD)
  with assms(2) show ?thesis
    by (auto simp: list_all_iff)
qed

lemma build_returned:
  assumes "build env config report s = (Inr result, s')"
    and "\<forall>eff\<in>set (trace s). \<not> isReinsertMessage eff \<and> \<not> isRomCopy eff
        \<and> \<not> isInsertion eff \<and> \<not> isCommitEffect eff"
  obtains s1 where "\<forall>eff\<in>set (trace s1). \<not> isReinsertMessage eff \<and> \<not> isRomCopy eff
        \<and> \<not> isInsertion eff \<and> \<not> isCommitEffect eff"
    and "entriesPhase env config report s1 = (Inr result, s')"
proof -
  from assms(1) obtain s1 where c: "perReportChecks env config report s = (Inr (), s1)"
    and r: "entriesPhase env config report s1 = (Inr result, s')"
    unfolding build_def by (rule next_do_cases) simp_all
  from perReportChecks_clean [OF c assms(2)] r show ?thesis
    by (rule that)
qed

lemma build_outcome:
  assumes run: "build env config report (initial w deps) = (Inr result, s')"
  shows "(result = NO_WORK \<longleftrightarrow> \<not> (\<exists>eff\<in>set (trace s'). isReinsertMessage eff))
      \<and> (result = SUCCESS \<longleftrightarrow> (\<exists>eff\<in>set (trace s'). isInsertion eff))
      \<and> (result = NO_WORK \<longrightarrow> \<not> (\<exists>eff\<in>set (trace s'). isRomCopy eff \<or> isCommitEffect eff))
      \<and> (result = SUCCESS \<longrightarrow>
          (\<exists>eff\<in>set (trace s'). isRomCopy eff)
          \<and> ((\<exists>ds. WriteBuildReport ds \<in> set (trace s')) \<or> RemoveBuildReport \<in> set (trace s'))
          \<and> CacheModules \<in> set (trace s')
          \<and> (\<exists>p. WriteMarkerToRom p \<in> set (trace s'))
          \<and> MoveTempToOutput \<in> set (trace s')
          \<and> LinkOutputRomToProjectGraphics False \<in> set (trace s')
          \<and> LinkOutputRomToProjectGraphics True \<in> set (trace s'))"
proof -
  have "\<forall>eff\<in>set (trace (initial w deps)). \<not> isReinsertMessage eff \<and> \<not> isRomCopy eff
        \<and> \<not> isInsertion eff \<and> \<not> isCommitEffect eff"
    by (simp add: initial_def)
  with run obtain s1 where clean: "\<forall>eff\<in>set (trace s1). \<not> isReinsertMessage eff \<and> \<not> isRomCopy eff
        \<and> \<not> isInsertion eff \<and> \<not> isCommitEffect eff"
    and r1: "entriesPhase env config report s1 = (Inr result, s')"
    by (rule build_returned)
  from r1 clean obtain tmp s3 where k: "workRecorded s3"
    and n: "\<forall>eff\<in>set (trace s3). \<not> isCommitEffect eff"
    and c: "commit env config tmp s3 = (Inr result, s')"
    by (rule entriesPhase_returned)
  show ?thesis
  proof (cases "any_work_done s3")
    case False
    with c have e: "result = NO_WORK" "s' = s3"
      by (simp_all add: commit_no_work)
    from False k n e show ?thesis
      by (auto simp: workRecorded_def)
  next
    case True
    from commit_work_done [OF True c] obtain folder where e: "result = SUCCESS"
      and t: "trace s' = trace s3 @
           (if failed_dependency_report s3 = None then [WriteBuildReport (dependencies s3)]
            else [Log QuickbuildNotApplicable, RemoveBuildReport]) @
           [CacheModules, WriteMarkerToRom tmp, MoveTempToOutput,
            LinkOutputRomToProjectGraphics False, LinkOutputRomToProjectGraphics True,
            FsRemoveAll folder]"
      by blast
    from True k have "\<exists>eff\<in>set (trace s3). isReinsertMessage eff"
      "\<exists>eff\<in>set (trace s3). isRomCopy eff" "\<exists>eff\<in>set (trace s3). isInsertion eff"
      by (simp_all add: workRecorded_def)
    with e t show ?thesis
      by (cases "failed_dependency_report s3 = None") auto
  qed
qed

lemma check_cases:
  assumes "next_do (check c) m s = (r, s')"
  obtains (raised) "s' = s" | (returned) "m s = (r, s')"
  using assms by (rule next_do_cases) (auto simp: check_def)

lemma build_cases:
  assumes "build env config report s = (r, s')"
    and "\<forall>eff\<in>set (trace s). \<not> isReinsertMessage eff \<and> \<not> isRomCopy eff
        \<and> \<not> isInsertion eff \<and> \<not> isCommitEffect eff"
  obtains (early) "\<forall>eff\<in>set (trace s'). \<not> isReinsertMessage eff \<and> \<not> isRomCopy eff
        \<and> \<not> isInsertion eff \<and> \<not> isCommitEffect eff"
    | (entries) s1 where "\<forall>eff\<in>set (trace s1). \<not> isReinsertMessage eff \<and> \<not> isRomCopy eff
        \<and> \<not> isInsertion eff \<and> \<not> isCommitEffect eff"
        and "entriesPhase env config report s1 = (r, s')"
  using assms(1) unfolding build_def
proof (cases rule: next_do_cases)
  case (raised e)
  from perReportChecks_clean [OF raised(1) assms(2)] show ?thesis
    by (rule early)
next
  case (returned s1)
  from perReportChecks_clean [OF returned(1) assms(2)] returned(2) show ?thesis
    by (rule entries)
qed

lemma commit_only_after_reinsert:
  assumes run: "entriesPhase env config report s1 = (r, s')"
    and clean: "\<forall>eff\<in>set (trace s1). \<not> isReinsertMessage eff \<and> \<not> isRomCopy eff
        \<and> \<not> isInsertion eff \<and> \<not> isCommitEffect eff"
    and committed: "\<exists>eff\<in>set (trace s'). isCommitEffect eff"
  shows "\<exists>eff\<in>set (trace s'). isReinsertMessage eff"
  using run unfolding entriesPhase_def
proof (cases rule: bind_cases)
  case (raised e)
  then have "s' = s1" by (simp add: check_def)
  with clean committed show ?thesis by auto
next
  case (returned tmp s1')
  from returned(1) have [simp]: "s1' = s1" by (simp add: check_def)
  let ?s2 = "s1\<lparr>any_work_done := False, failed_dependency_report := None\<rparr>"
  from returned(2) have r2: "next_do (bind (get (\<lambda>s. length (dependencies s))) (\<lambda>n.
                entryLoop env config report tmp [0..<n]))
      (commit env config tmp) ?s2 = (r, s')"
    by (rule next_do_cases) (auto simp: modify_def)
  from clean have k2: "workRecorded ?s2"
    by (auto simp: workRecorded_def)
  from r2 show ?thesis
  proof (cases rule: next_do_cases)
    case (raised e)
    then have l: "entryLoop env config report tmp [0..<length (dependencies ?s2)] ?s2
        = (Inl e, s')"
      by (simp add: bind_get)
    from preservesD(1) [OF entryLoop_no_commit _ l] obtain t where
      "trace s' = trace ?s2 @ t" "list_all (\<lambda>eff. \<not> isCommitEffect eff) t"
      by (auto elim: frameD)
    with clean committed show ?thesis
      by (auto simp: list_all_iff)
  next
    case (returned s3)
    then have l: "entryLoop env config report tmp [0..<length (dependencies ?s2)] ?s2
        = (Inr (), s3)"
      by (simp add: bind_get)
    from k2 l have k3: "workRecorded s3"
      by (rule entryLoop_workRecorded)
    from preservesD(1) [OF entryLoop_no_commit _ l] obtain t where
      "trace s3 = trace ?s2 @ t" "list_all (\<lambda>eff. \<not> isCommitEffect eff) t"
      by (auto elim: frameD)
    with clean have n3: "\<forall>eff\<in>set (trace s3). \<not> isCommitEffect eff"
      by (auto simp: list_all_iff)
    show ?thesis
    proof (cases "any_work_done s3")
      case False
      with returned(2) have "s' = s3" by (simp add: commit_no_work)
      with n3 committed show ?thesis by auto
    next
      case True
      with k3 have m: "\<exists>eff\<in>set (trace s3). isReinsertMessage eff"
        by (simp add: workRecorded_def)
      from preservesD(1) [OF commit_frame _ returned(2)] obtain t' where
        "trace s' = trace s3 @ t'"
        by (auto elim: frameD)
      with m show ?thesis by auto
    qed
  qed
qed

text \<open>
  Claim C10. An entry is classified for reinsertion exactly when its message is
  written, and is reinserted exactly when \<open>insertWithDependencies\<close> or \<open>insert\<close> is
  called. When \<open>build\<close> returns, it returns \<open>NoWork\<close> iff no entry was classified for
  reinsertion, and \<open>Success\<close> iff an entry was reinserted. With \<open>NoWork\<close> the ROM of the
  previous build was not copied to the temporary path and no commit action was made:
  the build report was neither written nor removed, no module output was cached, no
  marker was written, the output ROM was not replaced and no graphics link was made.
  With \<open>Success\<close> the ROM was copied and every commit action was made. And however
  \<open>build\<close> ends, a commit action was made only if an entry was classified for
  reinsertion.
\<close>

theorem commit_iff_work_done:
  "(build env config report (initial w deps) = (Inr result, s') \<longrightarrow>
      (result = NO_WORK \<longleftrightarrow> \<not> (\<exists>eff\<in>set (trace s'). isReinsertMessage eff))
      \<and> (result = SUCCESS \<longleftrightarrow> (\<exists>eff\<in>set (trace s'). isInsertion eff))
      \<and> (result = NO_WORK \<longrightarrow> \<not> (\<exists>eff\<in>set (trace s'). isRomCopy eff \<or> isCommitEffect eff))
      \<and> (result = SUCCESS \<longrightarrow>
          (\<exists>eff\<in>set (trace s'). isRomCopy eff)
          \<and> ((\<exists>ds. WriteBuildReport ds \<in> set (trace s')) \<or> RemoveBuildReport \<in> set (trace s'))
          \<and> CacheModules \<in> set (trace s')
          \<and> (\<exists>p. WriteMarkerToRom p \<in> set (trace s'))
          \<and> MoveTempToOutput \<in> set (trace s')
          \<and> LinkOutputRomToProjectGraphics False \<in> set (trace s')
          \<and> LinkOutputRomToProjectGraphics True \<in> set (trace s')))
   \<and> (build env config report (initial w deps) = (r, s') \<longrightarrow>
        (\<exists>eff\<in>set (trace s'). isCommitEffect eff) \<longrightarrow>
        (\<exists>eff\<in>set (trace s'). isReinsertMessage eff))"
proof (intro conjI impI)
  assume run: "build env config report (initial w deps) = (r, s')"
    and committed: "\<exists>eff\<in>set (trace s'). isCommitEffect eff"
  have "\<forall>eff\<in>set (trace (initial w deps)). \<not> isReinsertMessage eff \<and> \<not> isRomCopy eff
        \<and> \<not> isInsertion eff \<and> \<not> isCommitEffect eff"
    by (simp add: initial_def)
  with run show "\<exists>eff\<in>set (trace s'). isReinsertMessage eff"
  proof (cases rule: build_cases)
    case early
    with committed show ?thesis by blast
  next
    case (entries s1)
    from entries(2,1) show ?thesis using committed
      by (rule commit_only_after_reinsert)
  qed
qed (use build_outcome [of env config report w deps result s'] in blast)+

lemmas action_defs =
  next_do_def bind_def get_def check_def call_def modify_def return_ok_def throw_def
  logMessage_def getOrThrow_def Let_def

lemmas driver_defs =
  build_def perReportChecks_def entriesPhase_def temporaryRomPath_def commit_def
  processEntry_def classify_def
  keep_def reinsert_def insertionSteps_def copyRomOnce_def insertEntry_def
  tryInsertWithDependencies_def validateHijacks_def name_value_def
  checkOutputRomExists_def checkRebuildRomSize_def checkBuildReportFormat_def
  checkBuildOrderChange_def checkLevels_def checkProblematicLevelChanges_def
  checkRebuildResourceDependencies_def new_timestamp_def

lemmas scenario_defs =
  scenario_env_def scenario_world_def scenario_config_def scenario_report_def
  scenario_order_def scenario_dependencies_def graphics_entry_def patch_entry_def
  patch_dependency_def module_entry_def nothing_fails_def initial_def

lemma scenario_unchanged:
  "fst (build (scenario_env [] nothing_fails) scenario_config scenario_report
         (initial (scenario_world 1000) scenario_dependencies)) = Inr NO_WORK"
  by (simp add: action_defs driver_defs scenario_defs upt_rec)

lemma scenario_patch_touched:
  "fst (build (scenario_env [(0x108000, 16), (0x108100, 8)] nothing_fails) scenario_config
         scenario_report (initial (scenario_world 2000) scenario_dependencies)) = Inr SUCCESS"
  by (simp add: action_defs driver_defs scenario_defs upt_rec hijacksGoneBad_def
      insertRange.simps rangeMissing.simps)

theorem commit_iff_work_done_witness:
  "fst (build (scenario_env [] nothing_fails) scenario_config scenario_report
         (initial (scenario_world 1000) scenario_dependencies)) = Inr NO_WORK
   \<and> \<not> (\<exists>eff\<in>set (trace (snd (build (scenario_env [] nothing_fails) scenario_config
            scenario_report (initial (scenario_world 1000) scenario_dependencies)))).
          isRomCopy eff \<or> isCommitEffect eff)
   \<and> fst (build (scenario_env [(0x108000, 16), (0x108100, 8)] nothing_fails) scenario_config
         scenario_report (initial (scenario_world 2000) scenario_dependencies)) = Inr SUCCESS
   \<and> CacheModules \<in> set (trace (snd (build
          (scenario_env [(0x108000, 16), (0x108100, 8)] nothing_fails) scenario_config
          scenario_report (initial (scenario_world 2000) scenario_dependencies))))"
proof -
  let ?a = "build (scenario_env [] nothing_fails) scenario_config scenario_report
         (initial (scenario_world 1000) scenario_dependencies)"
  let ?b = "build (scenario_env [(0x108000, 16), (0x108100, 8)] nothing_fails) scenario_config
         scenario_report (initial (scenario_world 2000) scenario_dependencies)"
  have a: "?a = (Inr NO_WORK, snd ?a)"
    using scenario_unchanged by (metis prod.collapse)
  have b: "?b = (Inr SUCCESS, snd ?b)"
    using scenario_patch_touched by (metis prod.collapse)
  note ta = commit_iff_work_done [where s' = "snd ?a" and result = NO_WORK,
      THEN conjunct1, rule_format, OF a]
  note tb = commit_iff_work_done [where s' = "snd ?b" and result = SUCCESS,
      THEN conjunct1, rule_format, OF b]
  from ta have "\<not> (\<exists>eff\<in>set (trace (snd ?a)). isRomCopy eff \<or> isCommitEffect eff)"
    by blast
  moreover from tb have "CacheModules \<in> set (trace (snd ?b))"
    by blast
  ultimately show ?thesis
    using scenario_unchanged scenario_patch_touched by (intro conjI)
qed

subsection \<open>A dependency report that is not found\<close>














end
